theory Spec2Isabelle
  imports Main "HOL-Library.Word"
begin

unbundle bit_operations_syntax

section \<open>Machine integers\<close>

text \<open>
  The binary spectra are \<open>uint32_t\<close>: 32-bit words, with wrapping \<open>+\<close> and \<open>-\<close>,
  \<open>drop_bit\<close> for \<open>>>\<close>, and \<open>AND\<close>, \<open>XOR\<close>.

  The signed quantities (\<open>int\<close> and \<open>int32_t\<close>, both 32 bits wide) are integers with
  the two's complement wrap-around written out: \<open>int32 x\<close> is the value a 32-bit signed
  register holds after an operation whose exact result is \<open>x\<close>. C leaves signed
  overflow undefined; the wrap-around is what the usual targets compute.
\<close>

type_synonym uint32_t = "32 word"

definition int32 :: "int \<Rightarrow> int" where
  "int32 x = signed_take_bit 31 x"

definition in_int32 :: "int \<Rightarrow> bool" where
  "in_int32 x \<longleftrightarrow> - 2147483648 \<le> x \<and> x < 2147483648"

text \<open>
  \<open>x >> n\<close> on a signed 32-bit value with an \<open>int\<close> shift count: the arithmetic
  shift, \<open>x div 2 ^ n\<close>. C defines it for \<open>0 \<le> n < 32\<close> only; a negative count
  is read as no shift here.
\<close>

definition shr32 :: "int \<Rightarrow> int \<Rightarrow> int" where
  "shr32 x n = drop_bit (nat n) x"

text \<open>\<open>x << n\<close> on a signed 32-bit value.\<close>

definition shl32 :: "int \<Rightarrow> nat \<Rightarrow> int" where
  "shl32 x n = int32 (push_bit n x)"

section \<open>Constants\<close>

definition kShiftsAtZero :: int where
  "kShiftsAtZero = 13"

definition kShiftsLinearSlope :: int where
  "kShiftsLinearSlope = 3"

definition kProbabilityOffset :: int where
  "kProbabilityOffset = 1024"

definition kProbabilityLowerLimit :: int where
  "kProbabilityLowerLimit = 8704"

definition kProbabilityMinSpread :: int where
  "kProbabilityMinSpread = 2816"

section \<open>The bit-count kernel\<close>

text \<open>
  The masks of the source are octal: \<open>033333333333 = 0xDB6DB6DB\<close>,
  \<open>011111111111 = 0x49249249\<close>, \<open>030707070707 = 0xC71C71C7\<close>, \<open>077 = 0x3F\<close>.
  The result is the cast of \<open>tmp\<close> to \<open>int\<close>.
\<close>

definition BitCount :: "uint32_t \<Rightarrow> int" where
  "BitCount u32 =
    (let tmp = u32 - (drop_bit 1 u32 AND 0xDB6DB6DB) - (drop_bit 2 u32 AND 0x49249249);
         tmp = (tmp + drop_bit 3 tmp) AND 0xC71C71C7;
         tmp = tmp + drop_bit 6 tmp;
         tmp = (tmp + drop_bit 12 tmp + drop_bit 24 tmp) AND 0x3F
     in sint tmp)"

text \<open>
  The loop \<open>for (; n < matrix_size; n++) bit_counts[n] = ...\<close>, as a fold over the
  indices \<open>0 .. matrix_size - 1\<close>. The arrays are lists; the C code reads and writes
  \<open>matrix_size\<close> elements of both, so both must be that long.
\<close>

definition BitCountComparison ::
  "uint32_t \<Rightarrow> uint32_t list \<Rightarrow> int \<Rightarrow> int list \<Rightarrow> int list" where
  "BitCountComparison binary_vector binary_matrix matrix_size bit_counts =
     fold (\<lambda>n bc. bc[n := BitCount (binary_vector XOR binary_matrix ! n)])
       [0..<nat matrix_size] bit_counts"

text \<open>
  The population count in the spec's words: the number of positions, among the 32,
  whose bit is set.
\<close>

definition popcount32 :: "uint32_t \<Rightarrow> nat" where
  "popcount32 w = length (filter (bit w) [0..<32])"

section \<open>The estimator state\<close>

text \<open>
  Modelled from the spec: the declaration of \<open>BinaryDelayEstimator\<close> is in
  \<open>delay_estimator.h\<close>, which is not among the sources. The fields are those the
  functions below access; the element types are those of the \<open>sizeof\<close> in the
  allocations and of the parameters they are passed to. The five buffers are lists.
\<close>

record BinaryDelayEstimator =
  mean_bit_counts :: "int list"
  bit_counts :: "int list"
  binary_far_history :: "uint32_t list"
  binary_near_history :: "uint32_t list"
  far_bit_counts :: "int list"
  minimum_probability :: int
  last_delay_probability :: int
  last_delay :: int
  history_size :: int
  near_history_size :: int

text \<open>
  The outcome of the six \<open>malloc\<close> calls of the constructor: \<open>None\<close> is \<open>NULL\<close>,
  otherwise the contents of the fresh, uninitialised memory (for a buffer, its element
  at each index).
\<close>

record allocation =
  alloc_self :: "BinaryDelayEstimator option"
  alloc_mean_bit_counts :: "(nat \<Rightarrow> int) option"
  alloc_bit_counts :: "(nat \<Rightarrow> int) option"
  alloc_binary_far_history :: "(nat \<Rightarrow> uint32_t) option"
  alloc_binary_near_history :: "(nat \<Rightarrow> uint32_t) option"
  alloc_far_bit_counts :: "(nat \<Rightarrow> int) option"

definition block :: "int \<Rightarrow> (nat \<Rightarrow> 'a) \<Rightarrow> 'a list" where
  "block n junk = map junk [0..<nat n]"

definition all_allocated :: "allocation \<Rightarrow> bool" where
  "all_allocated heap \<longleftrightarrow>
     alloc_self heap \<noteq> None \<and> alloc_mean_bit_counts heap \<noteq> None \<and>
     alloc_bit_counts heap \<noteq> None \<and> alloc_binary_far_history heap \<noteq> None \<and>
     alloc_binary_near_history heap \<noteq> None \<and> alloc_far_bit_counts heap \<noteq> None"

text \<open>
  The constructor. The instance is allocated only when the sanity conditions hold; the
  flag \<open>malloc_fail\<close> collects the failures of the five buffer allocations, and when it is
  set the partial instance is freed and \<open>NULL\<close> is returned.
\<close>

definition WebRtc_CreateBinaryDelayEstimator ::
  "allocation \<Rightarrow> int \<Rightarrow> int \<Rightarrow> BinaryDelayEstimator option" where
  "WebRtc_CreateBinaryDelayEstimator heap max_delay lookahead =
    (let hist_size = int32 (max_delay + lookahead);
         self = (if max_delay \<ge> 0 \<and> lookahead \<ge> 0 \<and> hist_size > 1
                 then alloc_self heap else None)
     in case self of
          None \<Rightarrow> None
        | Some self \<Rightarrow>
           (let malloc_fail =
                  (alloc_mean_bit_counts heap = None \<or> alloc_bit_counts heap = None \<or>
                   alloc_binary_far_history heap = None \<or>
                   alloc_binary_near_history heap = None \<or>
                   alloc_far_bit_counts heap = None)
            in if malloc_fail then None
               else Some (self\<lparr>history_size := hist_size,
                            near_history_size := int32 (lookahead + 1),
                            mean_bit_counts :=
                              block hist_size (the (alloc_mean_bit_counts heap)),
                            bit_counts := block hist_size (the (alloc_bit_counts heap)),
                            binary_far_history :=
                              block hist_size (the (alloc_binary_far_history heap)),
                            binary_near_history :=
                              block (int32 (lookahead + 1))
                                (the (alloc_binary_near_history heap)),
                            far_bit_counts :=
                              block hist_size (the (alloc_far_bit_counts heap))\<rparr>)))"

text \<open>
  \<open>memset(a, 0, sizeof(a[0]) * n)\<close>: the first \<open>n\<close> elements become zero. The element
  counts of the buffers are \<open>int\<close> fields; for the states the constructor returns they
  are the lengths of the buffers.
\<close>

definition memset0 :: "int \<Rightarrow> 'a::zero list \<Rightarrow> 'a list" where
  "memset0 n a = replicate (min (nat n) (length a)) 0 @ drop (nat n) a"

definition WebRtc_InitBinaryDelayEstimator :: "BinaryDelayEstimator \<Rightarrow> BinaryDelayEstimator" where
  "WebRtc_InitBinaryDelayEstimator handle =
     handle\<lparr>bit_counts := memset0 (history_size handle) (bit_counts handle),
            binary_far_history := memset0 (history_size handle) (binary_far_history handle),
            binary_near_history :=
              memset0 (near_history_size handle) (binary_near_history handle),
            far_bit_counts := memset0 (history_size handle) (far_bit_counts handle),
            mean_bit_counts :=
              fold (\<lambda>i m. m[i := shl32 20 9]) [0..<nat (history_size handle)]
                (mean_bit_counts handle),
            minimum_probability := shl32 32 9,
            last_delay_probability := shl32 32 9,
            last_delay := - 2\<rparr>"

section \<open>The smoothing step\<close>

text \<open>The function returns the new \<open>*mean_value\<close>.\<close>

definition WebRtc_MeanEstimatorFix :: "int \<Rightarrow> int \<Rightarrow> int \<Rightarrow> int" where
  "WebRtc_MeanEstimatorFix new_value factor mean_value =
    (let diff = int32 (new_value - mean_value);
         diff = (if diff < 0 then int32 (- shr32 (int32 (- diff)) factor)
                 else shr32 diff factor)
     in int32 (mean_value + diff))"

section \<open>One frame\<close>

text \<open>
  \<open>memmove(&a[1], &a[0], n * sizeof(a[0]))\<close>: the elements \<open>a[0..n-1]\<close> are copied
  to \<open>a[1..n]\<close>; \<open>a[0]\<close> and the elements from \<open>a[n+1]\<close> on stay.
\<close>

definition memmove_up :: "int \<Rightarrow> 'a list \<Rightarrow> 'a list" where
  "memmove_up n a = take 1 a @ take (nat n) a @ drop (Suc (nat n)) a"

text \<open>Lines 165 to 173: the far-end history and its bit counts.\<close>

definition process_far :: "BinaryDelayEstimator \<Rightarrow> uint32_t \<Rightarrow> BinaryDelayEstimator" where
  "process_far handle binary_far_spectrum =
     handle\<lparr>binary_far_history :=
              (memmove_up (history_size handle - 1) (binary_far_history handle))
                [0 := binary_far_spectrum],
            far_bit_counts :=
              (memmove_up (history_size handle - 1) (far_bit_counts handle))
                [0 := BitCount binary_far_spectrum]\<rparr>"

text \<open>
  Lines 175 to 184: the near-end history. The second component is the value of
  \<open>binary_near_spectrum\<close> afterwards, the word that is compared.
\<close>

definition process_near ::
  "BinaryDelayEstimator \<Rightarrow> uint32_t \<Rightarrow> BinaryDelayEstimator \<times> uint32_t" where
  "process_near handle binary_near_spectrum =
     (if near_history_size handle > 1 then
        (let near = (memmove_up (near_history_size handle - 1) (binary_near_history handle))
                      [0 := binary_near_spectrum]
         in (handle\<lparr>binary_near_history := near\<rparr>,
             near ! nat (near_history_size handle - 1)))
      else (handle, binary_near_spectrum))"

text \<open>Lines 187 to 190.\<close>

definition process_bit_counts :: "BinaryDelayEstimator \<Rightarrow> uint32_t \<Rightarrow> BinaryDelayEstimator" where
  "process_bit_counts handle binary_near_spectrum =
     handle\<lparr>bit_counts :=
              BitCountComparison binary_near_spectrum (binary_far_history handle)
                (history_size handle) (bit_counts handle)\<rparr>"

text \<open>Lines 193 to 207: the body of the loop at index \<open>i\<close>, and the loop.\<close>

definition mean_update :: "BinaryDelayEstimator \<Rightarrow> nat \<Rightarrow> int list \<Rightarrow> int list" where
  "mean_update handle i mean =
    (let bit_count = shl32 (bit_counts handle ! i) 9
     in if far_bit_counts handle ! i > 0 then
          (let shifts = kShiftsAtZero;
               shifts = int32 (shifts -
                          shr32 (int32 (kShiftsLinearSlope * far_bit_counts handle ! i)) 4)
           in mean[i := WebRtc_MeanEstimatorFix bit_count shifts (mean ! i)])
        else mean)"

definition process_means :: "BinaryDelayEstimator \<Rightarrow> BinaryDelayEstimator" where
  "process_means handle =
     handle\<lparr>mean_bit_counts :=
              fold (mean_update handle) [0..<nat (history_size handle)]
                (mean_bit_counts handle)\<rparr>"

text \<open>
  Lines 209 to 219: the body of the scan at index \<open>i\<close>, on
  \<open>(candidate_delay, value_best_candidate, value_worst_candidate)\<close>, and the scan from
  \<open>(-1, 16384, 0)\<close>.
\<close>

definition scan_step :: "int list \<Rightarrow> nat \<Rightarrow> int \<times> int \<times> int \<Rightarrow> int \<times> int \<times> int" where
  "scan_step mean i acc =
    (case acc of (candidate_delay, value_best_candidate, value_worst_candidate) \<Rightarrow>
      (let (candidate_delay, value_best_candidate) =
             (if mean ! i < value_best_candidate then (int i, mean ! i)
              else (candidate_delay, value_best_candidate));
           value_worst_candidate =
             (if mean ! i > value_worst_candidate then mean ! i else value_worst_candidate)
       in (candidate_delay, value_best_candidate, value_worst_candidate)))"

definition process_scan :: "BinaryDelayEstimator \<Rightarrow> int \<times> int \<times> int" where
  "process_scan handle =
     fold (scan_step (mean_bit_counts handle)) [0..<nat (history_size handle)] (- 1, 16384, 0)"

text \<open>Lines 235 to 248.\<close>

definition process_minimum_probability ::
  "BinaryDelayEstimator \<Rightarrow> int \<Rightarrow> int \<Rightarrow> BinaryDelayEstimator" where
  "process_minimum_probability handle value_best_candidate value_worst_candidate =
    (if minimum_probability handle > kProbabilityLowerLimit \<and>
        int32 (value_worst_candidate - value_best_candidate) > kProbabilityMinSpread
     then
       (let threshold = int32 (value_best_candidate + kProbabilityOffset);
            threshold = (if threshold < kProbabilityLowerLimit then kProbabilityLowerLimit
                         else threshold)
        in if minimum_probability handle > threshold
           then handle\<lparr>minimum_probability := threshold\<rparr> else handle)
     else handle)"

text \<open>Lines 251 to 262.\<close>

definition process_decision ::
  "BinaryDelayEstimator \<Rightarrow> int \<Rightarrow> int \<Rightarrow> int \<Rightarrow> BinaryDelayEstimator" where
  "process_decision handle candidate_delay value_best_candidate value_worst_candidate =
    (let handle = handle\<lparr>last_delay_probability := int32 (last_delay_probability handle + 1)\<rparr>
     in if value_worst_candidate > int32 (value_best_candidate + kProbabilityOffset) then
          (let handle = (if value_best_candidate < minimum_probability handle
                         then handle\<lparr>last_delay := candidate_delay\<rparr> else handle)
           in if value_best_candidate < last_delay_probability handle
              then handle\<lparr>last_delay := candidate_delay,
                          last_delay_probability := value_best_candidate\<rparr>
              else handle)
        else handle)"

text \<open>
  The state as it is when the scan starts (after line 207), the word compared in this
  call, and the result of the scan.
\<close>

definition process_smoothed ::
  "BinaryDelayEstimator \<Rightarrow> uint32_t \<Rightarrow> uint32_t \<Rightarrow> BinaryDelayEstimator" where
  "process_smoothed handle binary_far_spectrum binary_near_spectrum =
    (let handle = process_far handle binary_far_spectrum;
         (handle, binary_near_spectrum) = process_near handle binary_near_spectrum;
         handle = process_bit_counts handle binary_near_spectrum
     in process_means handle)"

definition process_compared :: "BinaryDelayEstimator \<Rightarrow> uint32_t \<Rightarrow> uint32_t \<Rightarrow> uint32_t" where
  "process_compared handle binary_far_spectrum binary_near_spectrum =
     snd (process_near (process_far handle binary_far_spectrum) binary_near_spectrum)"

definition process_candidates ::
  "BinaryDelayEstimator \<Rightarrow> uint32_t \<Rightarrow> uint32_t \<Rightarrow> int \<times> int \<times> int" where
  "process_candidates handle binary_far_spectrum binary_near_spectrum =
     process_scan (process_smoothed handle binary_far_spectrum binary_near_spectrum)"

text \<open>The whole call: the updated state and the returned delay.\<close>

definition WebRtc_ProcessBinarySpectrum ::
  "BinaryDelayEstimator \<Rightarrow> uint32_t \<Rightarrow> uint32_t \<Rightarrow> BinaryDelayEstimator \<times> int" where
  "WebRtc_ProcessBinarySpectrum handle binary_far_spectrum binary_near_spectrum =
    (let handle = process_smoothed handle binary_far_spectrum binary_near_spectrum;
         (candidate_delay, value_best_candidate, value_worst_candidate) = process_scan handle;
         handle = process_minimum_probability handle value_best_candidate
                    value_worst_candidate;
         handle = process_decision handle candidate_delay value_best_candidate
                    value_worst_candidate
     in (handle, last_delay handle))"

definition WebRtc_binary_last_delay :: "BinaryDelayEstimator \<Rightarrow> int" where
  "WebRtc_binary_last_delay handle = last_delay handle"

text \<open>
  A caller that feeds a sequence of (far, near) frames: the final state and the delays
  returned, in order.
\<close>

fun process_frames ::
  "BinaryDelayEstimator \<Rightarrow> (uint32_t \<times> uint32_t) list \<Rightarrow> BinaryDelayEstimator \<times> int list" where
  "process_frames handle [] = (handle, [])"
| "process_frames handle ((far, near) # frames) =
     (let (handle, delay) = WebRtc_ProcessBinarySpectrum handle far near;
          (handle, delays) = process_frames handle frames
      in (handle, delay # delays))"

text \<open>
  An allocator under which every request succeeds and returns zero-filled memory, and a
  few frames, for the concrete instances below.
\<close>

definition zero_heap :: allocation where
  "zero_heap =
     \<lparr>alloc_self = Some \<lparr>mean_bit_counts = [], bit_counts = [], binary_far_history = [],
        binary_near_history = [], far_bit_counts = [], minimum_probability = 0,
        last_delay_probability = 0, last_delay = 0, history_size = 0,
        near_history_size = 0\<rparr>,
      alloc_mean_bit_counts = Some (\<lambda>_. 0), alloc_bit_counts = Some (\<lambda>_. 0),
      alloc_binary_far_history = Some (\<lambda>_. 0), alloc_binary_near_history = Some (\<lambda>_. 0),
      alloc_far_bit_counts = Some (\<lambda>_. 0)\<rparr>"


section \<open>Octal digits\<close>

text \<open>
  The bit count of the source works on the octal digits of the word. For its proof:
  the value \<open>oct ds\<close> of a list of octal digits (least significant first), the first
  \<open>n\<close> octal digits \<open>octs n x\<close> of a number, the sum \<open>bit_sum n x\<close> of its \<open>n\<close> lowest
  bits, and the number \<open>pc3 d\<close> of bits set in one octal digit, as the first line of
  the source computes it.
\<close>

fun oct :: "nat list \<Rightarrow> nat" where
  "oct [] = 0"
| "oct (d # ds) = d + 8 * oct ds"

fun octs :: "nat \<Rightarrow> nat \<Rightarrow> nat list" where
  "octs 0 x = []"
| "octs (Suc n) x = (x mod 8) # octs n (x div 8)"

fun bit_sum :: "nat \<Rightarrow> nat \<Rightarrow> nat" where
  "bit_sum 0 x = 0"
| "bit_sum (Suc n) x = x mod 2 + bit_sum n (x div 2)"

definition pc3 :: "nat \<Rightarrow> nat" where
  "pc3 d = d - d div 2 - d div 4"

section \<open>Specification\<close>

text \<open>
  The adjustment step in the spec's words: the difference between the new value and
  the mean, shifted right with its sign kept (a negative difference is negated, shifted
  and negated back).
\<close>

definition spec_adjust :: "int \<Rightarrow> int \<Rightarrow> int \<Rightarrow> int" where
  "spec_adjust new shift mean =
     (let diff = new - mean
      in if diff < 0 then - drop_bit (nat shift) (- diff) else drop_bit (nat shift) diff)"

text \<open>
  The states the constructor, the initialiser and the frame update produce: the buffers
  have the lengths the constructor gave them, the far-end bit counts are those of the
  far-end history, the means lie in \<open>[0, 16384)\<close>, the adaptive threshold in
  \<open>[8704, 16384]\<close>, the counter is a 32-bit value, and the delay is \<open>-2\<close> or an index.
\<close>

definition valid_state :: "BinaryDelayEstimator \<Rightarrow> bool" where
  "valid_state s \<longleftrightarrow>
     1 < history_size s \<and>
     length (mean_bit_counts s) = nat (history_size s) \<and>
     length (bit_counts s) = nat (history_size s) \<and>
     length (binary_far_history s) = nat (history_size s) \<and>
     length (binary_near_history s) = nat (near_history_size s) \<and>
     far_bit_counts s = map BitCount (binary_far_history s) \<and>
     (\<forall>m \<in> set (mean_bit_counts s). 0 \<le> m \<and> m < 16384) \<and>
     8704 \<le> minimum_probability s \<and> minimum_probability s \<le> 16384 \<and>
     in_int32 (last_delay_probability s) \<and>
     (last_delay s = - 2 \<or> (0 \<le> last_delay s \<and> last_delay s < history_size s))"

text \<open>The value the smoothing loop leaves at index \<open>i\<close>, from the value it finds there.\<close>

definition smoothed_value :: "BinaryDelayEstimator \<Rightarrow> nat \<Rightarrow> int \<Rightarrow> int" where
  "smoothed_value handle i mean_value =
     (if far_bit_counts handle ! i > 0
      then WebRtc_MeanEstimatorFix (shl32 (bit_counts handle ! i) 9)
             (int32 (kShiftsAtZero -
                shr32 (int32 (kShiftsLinearSlope * far_bit_counts handle ! i)) 4))
             mean_value
      else mean_value)"

text \<open>
  Concrete states: the instance the constructor returns for \<open>(1, 1)\<close> on zero-filled
  memory, that instance after the initialiser, and a valid state with two distinct
  means.
\<close>

definition example_created :: BinaryDelayEstimator where
  "example_created =
     \<lparr>mean_bit_counts = [0, 0], bit_counts = [0, 0], binary_far_history = [0, 0],
      binary_near_history = [0, 0], far_bit_counts = [0, 0], minimum_probability = 0,
      last_delay_probability = 0, last_delay = 0, history_size = 2, near_history_size = 2\<rparr>"

definition example_initial :: BinaryDelayEstimator where
  "example_initial =
     \<lparr>mean_bit_counts = [10240, 10240], bit_counts = [0, 0], binary_far_history = [0, 0],
      binary_near_history = [0, 0], far_bit_counts = [0, 0], minimum_probability = 16384,
      last_delay_probability = 16384, last_delay = - 2, history_size = 2,
      near_history_size = 2\<rparr>"

definition example_state :: BinaryDelayEstimator where
  "example_state =
     \<lparr>mean_bit_counts = [16000, 100], bit_counts = [0, 0], binary_far_history = [0, 0],
      binary_near_history = [0, 0], far_bit_counts = [0, 0], minimum_probability = 16384,
      last_delay_probability = 16384, last_delay = - 2, history_size = 2,
      near_history_size = 2\<rparr>"

section \<open>Construction\<close>

lemma int32_id: "in_int32 x \<Longrightarrow> int32 x = x"
  unfolding int32_def in_int32_def
  by (rule signed_take_bit_int_eq_self) simp_all

lemma int32_wraps: "int32 2147483648 = - 2147483648"
  by (simp add: int32_def)

text \<open>
  Claim C9. With every allocation succeeding, the constructor returns an instance exactly
  when \<open>max_delay \<ge> 0\<close>, \<open>lookahead \<ge> 0\<close> and the sum \<open>max_delay + lookahead\<close>, as the
  32-bit \<open>int\<close> the constructor computes, is above 1, and \<open>NULL\<close> otherwise. An instance
  has that 32-bit sum as \<open>history_size\<close> and the 32-bit \<open>lookahead + 1\<close> as
  \<open>near_history_size\<close>. For arguments whose exact sum does not exceed \<open>INT_MAX\<close> the
  condition is \<open>max_delay + lookahead > 1\<close> on the exact sum, \<open>history_size\<close> is
  \<open>max_delay + lookahead\<close>, and \<open>near_history_size\<close> is \<open>lookahead + 1\<close> when \<open>lookahead\<close> is
  below \<open>INT_MAX\<close>. \<open>create(0,0)\<close> and \<open>create(1,0)\<close> fail, \<open>create(1,1)\<close> succeeds, and
  \<open>create(2147483647,1)\<close> fails.
\<close>

theorem create_exactly_when:
  assumes "all_allocated heap"
  shows "((\<exists>s. WebRtc_CreateBinaryDelayEstimator heap max_delay lookahead = Some s) \<longleftrightarrow>
            max_delay \<ge> 0 \<and> lookahead \<ge> 0 \<and> int32 (max_delay + lookahead) > 1) \<and>
         ((WebRtc_CreateBinaryDelayEstimator heap max_delay lookahead = None) \<longleftrightarrow>
            \<not> (max_delay \<ge> 0 \<and> lookahead \<ge> 0 \<and> int32 (max_delay + lookahead) > 1)) \<and>
         (\<forall>s. WebRtc_CreateBinaryDelayEstimator heap max_delay lookahead = Some s \<longrightarrow>
            history_size s = int32 (max_delay + lookahead) \<and>
            near_history_size s = int32 (lookahead + 1)) \<and>
         (max_delay + lookahead \<le> 2147483647 \<longrightarrow>
            ((\<exists>s. WebRtc_CreateBinaryDelayEstimator heap max_delay lookahead = Some s) \<longleftrightarrow>
               max_delay \<ge> 0 \<and> lookahead \<ge> 0 \<and> max_delay + lookahead > 1) \<and>
            ((WebRtc_CreateBinaryDelayEstimator heap max_delay lookahead = None) \<longleftrightarrow>
               \<not> (max_delay \<ge> 0 \<and> lookahead \<ge> 0 \<and> max_delay + lookahead > 1)) \<and>
            (\<forall>s. WebRtc_CreateBinaryDelayEstimator heap max_delay lookahead = Some s \<longrightarrow>
               history_size s = max_delay + lookahead \<and>
               (lookahead < 2147483647 \<longrightarrow> near_history_size s = lookahead + 1))) \<and>
         WebRtc_CreateBinaryDelayEstimator heap 0 0 = None \<and>
         WebRtc_CreateBinaryDelayEstimator heap 1 0 = None \<and>
         (\<exists>s. WebRtc_CreateBinaryDelayEstimator heap 1 1 = Some s) \<and>
         WebRtc_CreateBinaryDelayEstimator heap 2147483647 1 = None"
proof -
  let ?c = "WebRtc_CreateBinaryDelayEstimator heap max_delay lookahead"
  let ?ok = "max_delay \<ge> 0 \<and> lookahead \<ge> 0 \<and> int32 (max_delay + lookahead) > 1"
  have 1: "(\<exists>s. ?c = Some s) \<longleftrightarrow> ?ok"
    using assms
    by (auto simp: WebRtc_CreateBinaryDelayEstimator_def all_allocated_def Let_def)
  have 2: "?c = None \<longleftrightarrow> \<not> ?ok"
    using 1 by auto
  have 3: "history_size s = int32 (max_delay + lookahead) \<and>
      near_history_size s = int32 (lookahead + 1)" if "?c = Some s" for s
    using assms that
    by (auto simp: WebRtc_CreateBinaryDelayEstimator_def all_allocated_def Let_def
        split: if_splits)
  have 4: "int32 (max_delay + lookahead) = max_delay + lookahead"
    if "max_delay \<ge> 0" "lookahead \<ge> 0" "max_delay + lookahead \<le> 2147483647"
    using that by (intro int32_id) (simp add: in_int32_def)
  have 5: "int32 (lookahead + 1) = lookahead + 1"
    if "lookahead \<ge> 0" "lookahead < 2147483647"
    using that by (intro int32_id) (simp add: in_int32_def)
  have 6: "WebRtc_CreateBinaryDelayEstimator heap 0 0 = None"
    "WebRtc_CreateBinaryDelayEstimator heap 1 0 = None"
    "WebRtc_CreateBinaryDelayEstimator heap 2147483647 1 = None"
    by (simp_all add: WebRtc_CreateBinaryDelayEstimator_def Let_def int32_id in_int32_def int32_wraps)
  have 7: "\<exists>s. WebRtc_CreateBinaryDelayEstimator heap 1 1 = Some s"
    using assms
    by (auto simp: WebRtc_CreateBinaryDelayEstimator_def all_allocated_def Let_def int32_id in_int32_def)
  have 8: "(\<exists>s. ?c = Some s) \<longleftrightarrow> max_delay \<ge> 0 \<and> lookahead \<ge> 0 \<and> max_delay + lookahead > 1"
    if "max_delay + lookahead \<le> 2147483647"
    using 1 4 that by auto
  have 9: "?c = None \<longleftrightarrow> \<not> (max_delay \<ge> 0 \<and> lookahead \<ge> 0 \<and> max_delay + lookahead > 1)"
    if "max_delay + lookahead \<le> 2147483647"
    using 8 [OF that] by auto
  have 10: "history_size s = max_delay + lookahead \<and>
      (lookahead < 2147483647 \<longrightarrow> near_history_size s = lookahead + 1)"
    if "max_delay + lookahead \<le> 2147483647" "?c = Some s" for s
  proof -
    have "?ok"
      using 1 that(2) by blast
    then show ?thesis
      using 3 [OF that(2)] 4 5 that(1) by auto
  qed
  show ?thesis
    using 1 2 3 6 7 8 9 10 by blast
qed

theorem create_exactly_when_witness:
  "all_allocated zero_heap \<and>
   (\<exists>s. WebRtc_CreateBinaryDelayEstimator zero_heap 2 1 = Some s \<and>
        history_size s = 3 \<and> near_history_size s = 2) \<and>
   WebRtc_CreateBinaryDelayEstimator zero_heap 1 0 = None \<and>
   WebRtc_CreateBinaryDelayEstimator zero_heap 2147483647 1 = None"
proof -
  have a: "all_allocated zero_heap"
    by (simp add: all_allocated_def zero_heap_def)
  show ?thesis
    using a create_exactly_when [OF a, of 2 1]
    by auto
qed

text \<open>
  Claim C9 as it is written, with the exact sum, does not hold for all arguments: for
  \<open>(2147483647, 1)\<close> both arguments are non-negative and their sum is above 1, every
  allocation succeeds, and the constructor returns \<open>NULL\<close>, because the 32-bit sum is
  \<open>-2147483648\<close>.
\<close>

theorem create_overflow_counterexample:
  "all_allocated zero_heap \<and> (0::int) \<le> 2147483647 \<and> (0::int) \<le> 1 \<and>
   (1::int) < 2147483647 + 1 \<and>
   WebRtc_CreateBinaryDelayEstimator zero_heap 2147483647 1 = None"
  by (simp add: all_allocated_def zero_heap_def WebRtc_CreateBinaryDelayEstimator_def Let_def
      int32_wraps)

section \<open>The bit count is the population count\<close>

lemma and_split8: "(a::nat) AND b = ((a mod 8) AND (b mod 8)) + 8 * ((a div 8) AND (b div 8))"
proof -
  have 1: "take_bit 3 (a AND b) = (a mod 8) AND (b mod 8)"
    unfolding take_bit_and by (simp add: take_bit_eq_mod)
  have 2: "drop_bit 3 (a AND b) = (a div 8) AND (b div 8)"
    unfolding drop_bit_and by (simp add: drop_bit_eq_div)
  have "a AND b = take_bit 3 (a AND b) + 8 * drop_bit 3 (a AND b)"
    using bits_ident [of 3 "a AND b"] by (simp only: push_bit_eq_mult) simp
  then show ?thesis
    by (simp only: 1 2)
qed

lemma and_cons:
  assumes "a < 8" "r < 8"
  shows "(a + 8 * x) AND (r + 8 * m) = (a AND r) + 8 * (x AND (m::nat))"
  using assms by (subst and_split8) simp

lemma and_7: "(e::nat) AND 7 = e mod 8"
  using take_bit_eq_mask [of 3 e] by (simp add: take_bit_eq_mod mask_eq_exp_minus_1)

lemma and_3: "(e::nat) AND 3 = e mod 4"
  using take_bit_eq_mask [of 2 e] by (simp add: take_bit_eq_mod mask_eq_exp_minus_1)

lemma and_1: "(e::nat) AND 1 = e mod 2"
  by (simp add: and_one_eq)

lemma and_63: "(e::nat) AND 63 = e mod 64"
  using take_bit_eq_mask [of 6 e] by (simp add: take_bit_eq_mod mask_eq_exp_minus_1)

lemma oct_octs: "oct (octs n x) = x mod 8 ^ n"
proof (induction n arbitrary: x)
  case 0
  then show ?case by simp
next
  case (Suc n)
  have "x mod (8 * 8 ^ n) = x mod 8 + 8 * (x div 8 mod 8 ^ n)"
    by (simp add: mod_mult2_eq)
  with Suc show ?case by simp
qed

lemma octs_lt: "d \<in> set (octs n x) \<Longrightarrow> d < 8"
  by (induction n arbitrary: x) auto

lemma length_octs: "length (octs n x) = n"
  by (induction n arbitrary: x) auto

lemma oct_half:
  "\<forall>d \<in> set ds. d < 8 \<Longrightarrow>
     (oct ds div 2) AND oct (replicate (length ds) 3) = oct (map (\<lambda>d. d div 2) ds)"
proof (induction ds)
  case Nil
  then show ?case by simp
next
  case (Cons d ds)
  then have d: "d < 8" by simp
  let ?v = "oct ds" and ?M = "oct (replicate (length ds) 3)"
  let ?a = "d div 2 + 4 * (?v mod 2)"
  have a: "?a < 8" using d by linarith
  have x: "oct (d # ds) div 2 = ?a + 8 * (?v div 2)"
  proof -
    have "(d + 8 * ?v) div 2 = d div 2 + 4 * ?v" by simp
    moreover have "4 * ?v = 4 * (?v mod 2) + 8 * (?v div 2)"
      using mult_div_mod_eq [of 2 ?v] by linarith
    ultimately show ?thesis by (simp only: oct.simps)
  qed
  have m: "oct (replicate (length (d # ds)) 3) = 3 + 8 * ?M"
    by simp
  have "?a AND 3 = d div 2"
    unfolding and_3 using d by simp
  moreover have "(?a + 8 * (?v div 2)) AND (3 + 8 * ?M) = (?a AND 3) + 8 * ((?v div 2) AND ?M)"
    by (rule and_cons [OF a]) simp
  ultimately have "oct (d # ds) div 2 AND oct (replicate (length (d # ds)) 3) =
      d div 2 + 8 * ((?v div 2) AND ?M)"
    by (simp only: x m)
  also have "(?v div 2) AND ?M = oct (map (\<lambda>d. d div 2) ds)"
    using Cons by simp
  finally show ?case by simp
qed

lemma oct_quarter:
  "\<forall>d \<in> set ds. d < 8 \<Longrightarrow>
     (oct ds div 4) AND oct (replicate (length ds) 1) = oct (map (\<lambda>d. d div 4) ds)"
proof (induction ds)
  case Nil
  then show ?case by simp
next
  case (Cons d ds)
  then have d: "d < 8" by simp
  let ?v = "oct ds" and ?M = "oct (replicate (length ds) 1)"
  let ?a = "d div 4 + 2 * (?v mod 4)"
  have a: "?a < 8" using d by linarith
  have x: "oct (d # ds) div 4 = ?a + 8 * (?v div 4)"
  proof -
    have "(d + 8 * ?v) div 4 = d div 4 + 2 * ?v" by simp
    moreover have "2 * ?v = 2 * (?v mod 4) + 8 * (?v div 4)"
      using mult_div_mod_eq [of 4 ?v] by linarith
    ultimately show ?thesis by (simp only: oct.simps)
  qed
  have m: "oct (replicate (length (d # ds)) 1) = 1 + 8 * ?M"
    by simp
  have "?a AND 1 = d div 4"
    unfolding and_1 using d by simp
  moreover have "(?a + 8 * (?v div 4)) AND (1 + 8 * ?M) = (?a AND 1) + 8 * ((?v div 4) AND ?M)"
    by (rule and_cons [OF a]) simp
  ultimately have "oct (d # ds) div 4 AND oct (replicate (length (d # ds)) 1) =
      d div 4 + 8 * ((?v div 4) AND ?M)"
    by (simp only: x m)
  also have "(?v div 4) AND ?M = oct (map (\<lambda>d. d div 4) ds)"
    using Cons by simp
  finally show ?case by simp
qed

lemma oct_pc3:
  "oct ds = oct (map pc3 ds) + oct (map (\<lambda>d. d div 2) ds) + oct (map (\<lambda>d. d div 4) ds)"
proof (induction ds)
  case Nil
  then show ?case by simp
next
  case (Cons d ds)
  have "d = pc3 d + d div 2 + d div 4"
    unfolding pc3_def by linarith
  with Cons show ?case by simp
qed

lemma first_line_digits:
  assumes "\<forall>d \<in> set ds. d < 8"
  shows "oct ds - ((oct ds div 2) AND oct (replicate (length ds) 3))
           - ((oct ds div 4) AND oct (replicate (length ds) 1)) = oct (map pc3 ds)"
proof -
  have "oct ds - oct (map (\<lambda>d. d div 2) ds) - oct (map (\<lambda>d. d div 4) ds) = oct (map pc3 ds)"
    using oct_pc3 [of ds] by linarith
  then show ?thesis
    by (simp only: oct_half [OF assms] oct_quarter [OF assms])
qed

lemma replicate_11: "replicate 11 x = [x, x, x, x, x, x, x, x, x, x, x]"
  by (simp add: eval_nat_numeral)

lemma octal_masks:
  "oct (replicate 11 3) = 0xDB6DB6DB" "oct (replicate 11 1) = 0x49249249"
  unfolding replicate_11 by simp_all

lemma oct_and:
  "length xs = length ys \<Longrightarrow> \<forall>d \<in> set xs. d < 8 \<Longrightarrow> \<forall>d \<in> set ys. d < 8 \<Longrightarrow>
     oct xs AND oct ys = oct (map2 (AND) xs ys)"
proof (induction xs ys rule: list_induct2)
  case Nil
  then show ?case by simp
next
  case (Cons x xs y ys)
  then show ?case by (simp add: and_cons)
qed

lemma second_line_fields:
  fixes p0 :: nat
  assumes "p0 \<le> 3" "p1 \<le> 3" "p2 \<le> 3" "p3 \<le> 3" "p4 \<le> 3" "p5 \<le> 3" "p6 \<le> 3" "p7 \<le> 3" "p8 \<le> 3" "p9 \<le> 3" "p10 \<le> 2"
  shows "(oct [p0, p1, p2, p3, p4, p5, p6, p7, p8, p9, p10] + oct [p0, p1, p2, p3, p4, p5, p6, p7, p8, p9, p10] div 8) AND 0xC71C71C7 = (p0 + p1) + 64 * ((p2 + p3) + 64 * ((p4 + p5) + 64 * ((p6 + p7) + 64 * ((p8 + p9) + 64 * (p10))))) \<and>
         oct [p0, p1, p2, p3, p4, p5, p6, p7, p8, p9, p10] + oct [p0, p1, p2, p3, p4, p5, p6, p7, p8, p9, p10] div 8 < 2 ^ 32"
proof -
  have d: "oct [p0, p1, p2, p3, p4, p5, p6, p7, p8, p9, p10] div 8 = oct [p1, p2, p3, p4, p5, p6, p7, p8, p9, p10]"
    using assms by simp
  have s: "oct [p0, p1, p2, p3, p4, p5, p6, p7, p8, p9, p10] + oct [p1, p2, p3, p4, p5, p6, p7, p8, p9, p10] = oct [p0 + p1, p1 + p2, p2 + p3, p3 + p4, p4 + p5, p5 + p6, p6 + p7, p7 + p8, p8 + p9, p9 + p10, p10]"
    by simp
  have m: "(0xC71C71C7 :: nat) = oct [7, 0, 7, 0, 7, 0, 7, 0, 7, 0, 3]"
    by simp
  have "oct [p0 + p1, p1 + p2, p2 + p3, p3 + p4, p4 + p5, p5 + p6, p6 + p7, p7 + p8, p8 + p9, p9 + p10, p10] AND oct [7, 0, 7, 0, 7, 0, 7, 0, 7, 0, 3] =
        oct (map2 (AND) [p0 + p1, p1 + p2, p2 + p3, p3 + p4, p4 + p5, p5 + p6, p6 + p7, p7 + p8, p8 + p9, p9 + p10, p10] [7, 0, 7, 0, 7, 0, 7, 0, 7, 0, 3])"
    using assms by (intro oct_and) simp_all
  also have "\<dots> = oct [p0 + p1, 0, p2 + p3, 0, p4 + p5, 0, p6 + p7, 0, p8 + p9, 0, p10]"
    using assms by (simp add: and_7 and_3)
  also have "\<dots> = (p0 + p1) + 64 * ((p2 + p3) + 64 * ((p4 + p5) + 64 * ((p6 + p7) + 64 * ((p8 + p9) + 64 * (p10)))))"
    by simp
  finally have a: "oct [p0 + p1, p1 + p2, p2 + p3, p3 + p4, p4 + p5, p5 + p6, p6 + p7, p7 + p8, p8 + p9, p9 + p10, p10] AND oct [7, 0, 7, 0, 7, 0, 7, 0, 7, 0, 3] = (p0 + p1) + 64 * ((p2 + p3) + 64 * ((p4 + p5) + 64 * ((p6 + p7) + 64 * ((p8 + p9) + 64 * (p10)))))" .
  have b: "oct [p0 + p1, p1 + p2, p2 + p3, p3 + p4, p4 + p5, p5 + p6, p6 + p7, p7 + p8, p8 + p9, p9 + p10, p10] < 2 ^ 32"
    using assms by simp
  show ?thesis
    using a b by (simp only: d s m)
qed

lemma third_line_fields:
  fixes s0 :: nat
  assumes "s0 \<le> 6" "s1 \<le> 6" "s2 \<le> 6" "s3 \<le> 6" "s4 \<le> 6" "s5 \<le> 2"
  shows "(s0 + 64 * (s1 + 64 * (s2 + 64 * (s3 + 64 * (s4 + 64 * (s5)))))) + (s0 + 64 * (s1 + 64 * (s2 + 64 * (s3 + 64 * (s4 + 64 * (s5)))))) div 64 = (s0 + s1) + 64 * ((s1 + s2) + 64 * ((s2 + s3) + 64 * ((s3 + s4) + 64 * ((s4 + s5) + 64 * (s5))))) \<and> (s0 + 64 * (s1 + 64 * (s2 + 64 * (s3 + 64 * (s4 + 64 * (s5)))))) + (s0 + 64 * (s1 + 64 * (s2 + 64 * (s3 + 64 * (s4 + 64 * (s5)))))) div 64 < 2 ^ 32"
proof -
  have d: "(s0 + 64 * (s1 + 64 * (s2 + 64 * (s3 + 64 * (s4 + 64 * (s5)))))) div 64 = s1 + 64 * (s2 + 64 * (s3 + 64 * (s4 + 64 * (s5))))"
    using assms by simp
  show ?thesis
    unfolding d using assms by simp
qed

lemma fourth_line_sum:
  fixes s0 :: nat
  assumes "s0 \<le> 6" "s1 \<le> 6" "s2 \<le> 6" "s3 \<le> 6" "s4 \<le> 6" "s5 \<le> 2"
  shows "(((s0 + s1) + 64 * ((s1 + s2) + 64 * ((s2 + s3) + 64 * ((s3 + s4) + 64 * ((s4 + s5) + 64 * (s5)))))) + ((s0 + s1) + 64 * ((s1 + s2) + 64 * ((s2 + s3) + 64 * ((s3 + s4) + 64 * ((s4 + s5) + 64 * (s5)))))) div 4096 + ((s0 + s1) + 64 * ((s1 + s2) + 64 * ((s2 + s3) + 64 * ((s3 + s4) + 64 * ((s4 + s5) + 64 * (s5)))))) div 16777216) mod 64 = s0 + s1 + s2 + s3 + s4 + s5"
proof -
  let ?t = "s0 + s1 + s2 + s3 + s4 + s5"
  let ?K = "s1 + s2 + s3 + s4 + s5 + 64 * (s2 + s3 + s4 + s5 + 64 * (s3 + s4 + s5 + 64 * (s4 + s5 + 64 * s5)))"
  have a: "((s0 + s1) + 64 * ((s1 + s2) + 64 * ((s2 + s3) + 64 * ((s3 + s4) + 64 * ((s4 + s5) + 64 * (s5)))))) div 4096 = (s2 + s3) + 64 * ((s3 + s4) + 64 * ((s4 + s5) + 64 * (s5)))"
    using assms by simp
  have b: "((s0 + s1) + 64 * ((s1 + s2) + 64 * ((s2 + s3) + 64 * ((s3 + s4) + 64 * ((s4 + s5) + 64 * (s5)))))) div 16777216 = (s4 + s5) + 64 * (s5)"
    using assms by simp
  have c: "((s0 + s1) + 64 * ((s1 + s2) + 64 * ((s2 + s3) + 64 * ((s3 + s4) + 64 * ((s4 + s5) + 64 * (s5)))))) + ((s2 + s3) + 64 * ((s3 + s4) + 64 * ((s4 + s5) + 64 * (s5)))) + ((s4 + s5) + 64 * (s5)) = ?t + 64 * ?K"
    by simp
  have "(((s0 + s1) + 64 * ((s1 + s2) + 64 * ((s2 + s3) + 64 * ((s3 + s4) + 64 * ((s4 + s5) + 64 * (s5)))))) + ((s0 + s1) + 64 * ((s1 + s2) + 64 * ((s2 + s3) + 64 * ((s3 + s4) + 64 * ((s4 + s5) + 64 * (s5)))))) div 4096 + ((s0 + s1) + 64 * ((s1 + s2) + 64 * ((s2 + s3) + 64 * ((s3 + s4) + 64 * ((s4 + s5) + 64 * (s5)))))) div 16777216) mod 64 = (?t + 64 * ?K) mod 64"
    by (simp only: a b c)
  also have "\<dots> = ?t mod 64"
    by (rule mod_mult_self2)
  also have "\<dots> = ?t"
    using assms by simp
  finally show ?thesis .
qed

lemma low_bits:
  fixes d v :: nat
  shows "(d + 8 * v) mod 2 = d mod 2"
    and "(d + 8 * v) div 2 mod 2 = d div 2 mod 2"
    and "(d + 8 * v) div 2 div 2 mod 2 = d div 4 mod 2"
proof -
  show "(d + 8 * v) mod 2 = d mod 2"
    by (simp add: mod_2_eq_odd)
  have a: "(d + 8 * v) div 2 = d div 2 + 4 * v"
    by simp
  show "(d + 8 * v) div 2 mod 2 = d div 2 mod 2"
    unfolding a by (simp add: mod_2_eq_odd)
  have b: "(d div 2 + 4 * v) div 2 = d div 4 + 2 * v"
    by (simp add: div_mult2_eq [symmetric])
  show "(d + 8 * v) div 2 div 2 mod 2 = d div 4 mod 2"
    unfolding a b by (simp add: mod_2_eq_odd)
qed

lemma bit_sum_filter: "length (filter (bit (x::nat)) [0..<n]) = bit_sum n x"
proof (induction n arbitrary: x)
  case 0
  then show ?case by simp
next
  case (Suc n)
  have "[0..<Suc n] = 0 # map Suc [0..<n]"
    by (simp add: upt_conv_Cons map_Suc_upt del: upt_Suc)
  then have "length (filter (bit x) [0..<Suc n]) =
      of_bool (bit x 0) + length (filter (bit (x div 2)) [0..<n])"
    by (simp add: filter_map comp_def bit_Suc del: upt_Suc)
  also have "(of_bool (bit x 0) :: nat) = x mod 2"
    by (simp add: bit_0 mod_2_eq_odd)
  finally show ?case
    by (simp add: Suc del: upt_Suc)
qed

lemma bit_sum_add: "bit_sum (n + k) x = bit_sum n x + bit_sum k (x div 2 ^ n)"
proof (induction n arbitrary: x)
  case 0
  then show ?case by simp
next
  case (Suc n)
  have "x div 2 div 2 ^ n = x div (2 * 2 ^ n)"
    by (simp add: div_mult2_eq)
  with Suc show ?case by simp
qed

lemma bit_sum_zero: "bit_sum k 0 = 0"
  by (induction k) auto

lemma pc3_digit:
  assumes "d < 8"
  shows "pc3 d = d mod 2 + d div 2 mod 2 + d div 4 mod 2" and "pc3 d \<le> 3"
proof -
  from assms have "d = 0 \<or> d = 1 \<or> d = 2 \<or> d = 3 \<or> d = 4 \<or> d = 5 \<or> d = 6 \<or> d = 7"
    by linarith
  then show "pc3 d = d mod 2 + d div 2 mod 2 + d div 4 mod 2" and "pc3 d \<le> 3"
    by (auto simp: pc3_def)
qed

lemma pc3_small: "d < 4 \<Longrightarrow> pc3 d \<le> 2"
proof -
  assume "d < 4"
  then have "d = 0 \<or> d = 1 \<or> d = 2 \<or> d = 3"
    by linarith
  then show ?thesis
    by (auto simp: pc3_def)
qed

lemma bit_sum_3: "bit_sum 3 x = pc3 (x mod 8)"
proof -
  define d v where "d = x mod 8" and "v = x div 8"
  have x: "x = d + 8 * v" and d: "d < 8"
    by (simp_all add: d_def v_def)
  have "bit_sum (Suc (Suc (Suc 0))) x = x mod 2 + x div 2 mod 2 + x div 2 div 2 mod 2"
    by simp
  also have "\<dots> = d mod 2 + d div 2 mod 2 + d div 4 mod 2"
    unfolding x by (simp only: low_bits)
  also have "\<dots> = pc3 d"
    using d by (simp only: pc3_digit(1))
  finally show ?thesis
    by (simp add: numeral_3_eq_3 d_def)
qed

lemma bit_sum_octs: "sum_list (map pc3 (octs n x)) = bit_sum (3 * n) x"
proof (induction n arbitrary: x)
  case 0
  then show ?case by simp
next
  case (Suc n)
  have "bit_sum (3 * Suc n) x = bit_sum (3 + 3 * n) x"
    by simp
  also have "\<dots> = bit_sum 3 x + bit_sum (3 * n) (x div 2 ^ 3)"
    by (rule bit_sum_add)
  finally show ?case
    by (simp add: Suc bit_sum_3)
qed

lemma unat_shr: "unat (drop_bit n (w::32 word)) = unat w div 2 ^ n"
  unfolding unat_drop_bit_eq by (rule drop_bit_eq_div)

lemma eleven_Suc: "(11::nat) = Suc (Suc (Suc (Suc (Suc (Suc (Suc (Suc (Suc (Suc (Suc 0))))))))))"
  by simp

lemma popcount32_bit_sum: "popcount32 u = bit_sum 32 (unat u)"
proof -
  have "bit (unat u) = bit u"
    by (simp add: fun_eq_iff bit_unsigned_iff)
  then show ?thesis
    unfolding popcount32_def by (simp only: bit_sum_filter [symmetric])
qed

lemma BitCount_popcount: "BitCount u = int (popcount32 u)"
proof -
  define x where "x = unat u"
  have x32: "x < 4294967296"
    using unsigned_less [of u, where ?'a = nat] by (simp add: x_def)
  define ds where "ds = octs 11 x"
  have ods: "oct ds = x"
    using x32 by (simp add: ds_def oct_octs)
  have len: "length ds = 11"
    by (simp add: ds_def length_octs)
  have lt: "\<forall>d \<in> set ds. d < 8"
    by (simp add: ds_def octs_lt)
  have dl: "ds = [x mod 8, x div 8 mod 8, x div 8 div 8 mod 8, x div 8 div 8 div 8 mod 8, x div 8 div 8 div 8 div 8 mod 8, x div 8 div 8 div 8 div 8 div 8 mod 8, x div 8 div 8 div 8 div 8 div 8 div 8 mod 8, x div 8 div 8 div 8 div 8 div 8 div 8 div 8 mod 8, x div 8 div 8 div 8 div 8 div 8 div 8 div 8 div 8 mod 8, x div 8 div 8 div 8 div 8 div 8 div 8 div 8 div 8 div 8 mod 8, x div 8 div 8 div 8 div 8 div 8 div 8 div 8 div 8 div 8 div 8 mod 8]"
    unfolding ds_def by (simp only: eleven_Suc octs.simps)
  define p0 where "p0 = pc3 (x mod 8)"
  define p1 where "p1 = pc3 (x div 8 mod 8)"
  define p2 where "p2 = pc3 (x div 8 div 8 mod 8)"
  define p3 where "p3 = pc3 (x div 8 div 8 div 8 mod 8)"
  define p4 where "p4 = pc3 (x div 8 div 8 div 8 div 8 mod 8)"
  define p5 where "p5 = pc3 (x div 8 div 8 div 8 div 8 div 8 mod 8)"
  define p6 where "p6 = pc3 (x div 8 div 8 div 8 div 8 div 8 div 8 mod 8)"
  define p7 where "p7 = pc3 (x div 8 div 8 div 8 div 8 div 8 div 8 div 8 mod 8)"
  define p8 where "p8 = pc3 (x div 8 div 8 div 8 div 8 div 8 div 8 div 8 div 8 mod 8)"
  define p9 where "p9 = pc3 (x div 8 div 8 div 8 div 8 div 8 div 8 div 8 div 8 div 8 mod 8)"
  define p10 where "p10 = pc3 (x div 8 div 8 div 8 div 8 div 8 div 8 div 8 div 8 div 8 div 8 mod 8)"
  have ps: "map pc3 ds = [p0, p1, p2, p3, p4, p5, p6, p7, p8, p9, p10]"
    unfolding dl by (simp add: p0_def p1_def p2_def p3_def p4_def p5_def p6_def p7_def p8_def p9_def p10_def)
  have b0: "p0 \<le> 3" unfolding p0_def by (rule pc3_digit(2)) simp
  have b1: "p1 \<le> 3" unfolding p1_def by (rule pc3_digit(2)) simp
  have b2: "p2 \<le> 3" unfolding p2_def by (rule pc3_digit(2)) simp
  have b3: "p3 \<le> 3" unfolding p3_def by (rule pc3_digit(2)) simp
  have b4: "p4 \<le> 3" unfolding p4_def by (rule pc3_digit(2)) simp
  have b5: "p5 \<le> 3" unfolding p5_def by (rule pc3_digit(2)) simp
  have b6: "p6 \<le> 3" unfolding p6_def by (rule pc3_digit(2)) simp
  have b7: "p7 \<le> 3" unfolding p7_def by (rule pc3_digit(2)) simp
  have b8: "p8 \<le> 3" unfolding p8_def by (rule pc3_digit(2)) simp
  have b9: "p9 \<le> 3" unfolding p9_def by (rule pc3_digit(2)) simp
  have "x div 8 div 8 div 8 div 8 div 8 div 8 div 8 div 8 div 8 div 8 = x div 1073741824"
    by (simp add: div_mult2_eq [symmetric])
  moreover have "x div 1073741824 < 4"
    using x32 by (intro less_mult_imp_div_less) simp
  ultimately have "x div 8 div 8 div 8 div 8 div 8 div 8 div 8 div 8 div 8 div 8 mod 8 < 4"
    by simp
  then have b10: "p10 \<le> 2"
    unfolding p10_def by (rule pc3_small)
  define s0 where "s0 = p0 + p1"
  define s1 where "s1 = p2 + p3"
  define s2 where "s2 = p4 + p5"
  define s3 where "s3 = p6 + p7"
  define s4 where "s4 = p8 + p9"
  define s5 where "s5 = p10"
  have c0: "s0 \<le> 6" unfolding s0_def using b0 b1 by simp
  have c1: "s1 \<le> 6" unfolding s1_def using b2 b3 by simp
  have c2: "s2 \<le> 6" unfolding s2_def using b4 b5 by simp
  have c3: "s3 \<le> 6" unfolding s3_def using b6 b7 by simp
  have c4: "s4 \<le> 6" unfolding s4_def using b8 b9 by simp
  have c5: "s5 \<le> 2"
    unfolding s5_def by (rule b10)
  define A where "A = (x div 2) AND 0xDB6DB6DB"
  define B where "B = (x div 4) AND 0x49249249"
  define t1 where "t1 = u - (drop_bit 1 u AND 0xDB6DB6DB) - (drop_bit 2 u AND 0x49249249)"
  have A: "A = oct (map (\<lambda>d. d div 2) ds)"
    using oct_half [OF lt] by (simp only: A_def ods len octal_masks)
  have B: "B = oct (map (\<lambda>d. d div 4) ds)"
    using oct_quarter [OF lt] by (simp only: B_def ods len octal_masks)
  have xs: "x = oct [p0, p1, p2, p3, p4, p5, p6, p7, p8, p9, p10] + A + B"
    using oct_pc3 [of ds] by (simp only: A B ods ps)
  have uA: "unat (drop_bit 1 u AND 0xDB6DB6DB) = A"
    unfolding unsigned_and_eq unat_shr by (simp add: x_def A_def)
  have uB: "unat (drop_bit 2 u AND 0x49249249) = B"
    unfolding unsigned_and_eq unat_shr by (simp add: x_def B_def)
  have "drop_bit 1 u AND 0xDB6DB6DB \<le> u"
    unfolding word_le_nat_alt uA using xs by (simp add: x_def)
  then have "unat (u - (drop_bit 1 u AND 0xDB6DB6DB)) = unat u - unat (drop_bit 1 u AND 0xDB6DB6DB)"
    by (rule unat_sub)
  then have u1: "unat (u - (drop_bit 1 u AND 0xDB6DB6DB)) = x - A"
    by (simp only: uA x_def)
  have "drop_bit 2 u AND 0x49249249 \<le> u - (drop_bit 1 u AND 0xDB6DB6DB)"
    unfolding word_le_nat_alt uB u1 using xs by simp
  then have "unat t1 = unat (u - (drop_bit 1 u AND 0xDB6DB6DB)) - unat (drop_bit 2 u AND 0x49249249)"
    unfolding t1_def by (rule unat_sub)
  then have "unat t1 = x - A - B"
    by (simp only: uB u1)
  then have t1: "unat t1 = oct [p0, p1, p2, p3, p4, p5, p6, p7, p8, p9, p10]"
    using xs by simp
  define t2 where "t2 = (t1 + drop_bit 3 t1) AND 0xC71C71C7"
  note two = second_line_fields [OF b0 b1 b2 b3 b4 b5 b6 b7 b8 b9 b10]
  have "unat t1 + unat (drop_bit 3 t1) < 2 ^ LENGTH(32)"
    unfolding unat_shr t1 using two by simp
  then have "unat (t1 + drop_bit 3 t1) = unat t1 + unat (drop_bit 3 t1)"
    by (rule unat_add_lem [THEN iffD1])
  then have "unat t2 = (oct [p0, p1, p2, p3, p4, p5, p6, p7, p8, p9, p10] + oct [p0, p1, p2, p3, p4, p5, p6, p7, p8, p9, p10] div 8) AND 0xC71C71C7"
    unfolding t2_def unsigned_and_eq unat_shr t1 by simp
  then have t2: "unat t2 = s0 + 64 * (s1 + 64 * (s2 + 64 * (s3 + 64 * (s4 + 64 * (s5)))))"
    using two by (simp add: s0_def s1_def s2_def s3_def s4_def s5_def)
  define t3 where "t3 = t2 + drop_bit 6 t2"
  note three = third_line_fields [OF c0 c1 c2 c3 c4 c5]
  have "unat t2 + unat (drop_bit 6 t2) < 2 ^ LENGTH(32)"
    unfolding unat_shr t2 using three by simp
  then have "unat (t2 + drop_bit 6 t2) = unat t2 + unat (drop_bit 6 t2)"
    by (rule unat_add_lem [THEN iffD1])
  then have t3: "unat t3 = (s0 + s1) + 64 * ((s1 + s2) + 64 * ((s2 + s3) + 64 * ((s3 + s4) + 64 * ((s4 + s5) + 64 * (s5)))))"
    unfolding t3_def unat_shr t2 using three by simp
  define t4 where "t4 = (t3 + drop_bit 12 t3 + drop_bit 24 t3) AND 0x3F"
  have "unat (t3 + drop_bit 12 t3 + drop_bit 24 t3) =
      (unat t3 + unat t3 div 4096 + unat t3 div 16777216) mod 4294967296"
    unfolding unat_word_ariths unat_shr by (simp add: mod_simps)
  then have "unat t4 = (unat t3 + unat t3 div 4096 + unat t3 div 16777216) mod 4294967296 mod 64"
    by (simp add: t4_def unsigned_and_eq and_63)
  also have "\<dots> = (unat t3 + unat t3 div 4096 + unat t3 div 16777216) mod 64"
    by (simp add: mod_mod_cancel)
  also have "\<dots> = s0 + s1 + s2 + s3 + s4 + s5"
    unfolding t3 by (rule fourth_line_sum [OF c0 c1 c2 c3 c4 c5])
  also have "\<dots> = sum_list (map pc3 ds)"
    unfolding ps by (simp add: s0_def s1_def s2_def s3_def s4_def s5_def)
  also have "\<dots> = bit_sum (3 * 11) x"
    unfolding ds_def by (rule bit_sum_octs)
  also have "\<dots> = bit_sum (32 + 1) x"
    by simp
  also have "\<dots> = bit_sum 32 x + bit_sum 1 (x div 2 ^ 32)"
    by (rule bit_sum_add)
  also have "\<dots> = bit_sum 32 x"
    using x32 by (simp add: bit_sum_zero)
  finally have t4: "unat t4 = popcount32 u"
    by (simp add: popcount32_bit_sum x_def)
  have "popcount32 u \<le> 32"
    unfolding popcount32_def using length_filter_le [of "bit u" "[0..<32]"] by simp
  then have "signed_take_bit 31 (int (popcount32 u)) = int (popcount32 u)"
    by (intro signed_take_bit_int_eq_self) simp_all
  moreover have "uint t4 = int (popcount32 u)"
    unfolding uint_nat t4 ..
  ultimately have "sint t4 = int (popcount32 u)"
    unfolding sint_uint by simp
  then show ?thesis
    by (simp add: BitCount_def Let_def t1_def t2_def t3_def t4_def)
qed

lemma BitCount_range: "0 \<le> BitCount u \<and> BitCount u \<le> 32"
proof -
  have "popcount32 u \<le> 32"
    unfolding popcount32_def using length_filter_le [of "bit u" "[0..<32]"] by simp
  then show ?thesis
    by (simp add: BitCount_popcount)
qed

section \<open>Loops and buffers\<close>

lemma fold_pointwise:
  fixes F :: "nat \<Rightarrow> 'a \<Rightarrow> 'a"
  assumes "n \<le> length xs"
  shows "length (fold (\<lambda>i l. l[i := F i (l ! i)]) [0..<n] xs) = length xs \<and>
         (\<forall>i < length xs. fold (\<lambda>i l. l[i := F i (l ! i)]) [0..<n] xs ! i =
            (if i < n then F i (xs ! i) else xs ! i))"
  using assms
proof (induction n)
  case 0
  then show ?case by simp
next
  case (Suc n)
  then show ?case
    by (auto simp: nth_list_update)
qed

lemma memmove_up_shift:
  assumes "length a = nat n" and "1 < n"
  shows "(memmove_up (n - 1) a)[0 := x] = x # butlast a"
proof -
  from assms obtain y ys where a: "a = y # ys"
    by (cases a) auto
  have "nat (n - 1) = length ys"
    using assms a by simp
  then show ?thesis
    unfolding memmove_up_def a by (simp add: butlast_conv_take)
qed

lemma int32_small: "- 1000000 \<le> x \<Longrightarrow> x \<le> 1000000 \<Longrightarrow> int32 x = x"
  by (rule int32_id) (simp add: in_int32_def)

lemma div_pow_bounds:
  fixes d :: int
  assumes "0 \<le> d"
  shows "0 \<le> d div 2 ^ k" and "d div 2 ^ k \<le> d" and "0 < d \<Longrightarrow> 0 < k \<Longrightarrow> d div 2 ^ k < d"
proof -
  show "0 \<le> d div 2 ^ k"
    using assms by (simp add: pos_imp_zdiv_nonneg_iff)
  show "d div 2 ^ k \<le> d"
    using zdiv_mono2 [of d 1 "2 ^ k"] assms by simp
  show "d div 2 ^ k < d" if "0 < d" "0 < k"
  proof -
    have "(1::int) < 2 ^ k"
      using that by simp
    with that show ?thesis
      by (intro int_div_less_self)
  qed
qed

lemma shifts_range:
  assumes "0 < c" "c \<le> 32"
  shows "int32 (kShiftsAtZero - shr32 (int32 (kShiftsLinearSlope * c)) 4) = 13 - (3 * c) div 16"
    and "7 \<le> 13 - (3 * c) div 16" and "13 - (3 * c) div 16 \<le> 13"
  using assms
  by (simp_all add: kShiftsAtZero_def kShiftsLinearSlope_def shr32_def drop_bit_eq_div
      int32_small)

lemma MeanEstimatorFix_exact:
  assumes "0 \<le> m" "m < 16384" "0 \<le> new" "new \<le> 16384" "0 \<le> f"
  shows "WebRtc_MeanEstimatorFix new f m = m + spec_adjust new f m"
proof (cases "new < m")
  case True
  then have "0 \<le> (m - new) div 2 ^ nat f" "(m - new) div 2 ^ nat f \<le> m - new"
    by (simp_all add: div_pow_bounds)
  with True assms show ?thesis
    by (simp add: WebRtc_MeanEstimatorFix_def spec_adjust_def shr32_def drop_bit_eq_div Let_def
        int32_small)
next
  case False
  then have "0 \<le> (new - m) div 2 ^ nat f" "(new - m) div 2 ^ nat f \<le> new - m"
    by (simp_all add: div_pow_bounds)
  with False assms show ?thesis
    by (simp add: WebRtc_MeanEstimatorFix_def spec_adjust_def shr32_def drop_bit_eq_div Let_def
        int32_small)
qed

lemma spec_adjust_between:
  assumes "0 < f"
  shows "new < m \<Longrightarrow> new \<le> m + spec_adjust new f m \<and> m + spec_adjust new f m \<le> m"
    and "m < new \<Longrightarrow> m \<le> m + spec_adjust new f m \<and> m + spec_adjust new f m < new"
    and "m = new \<Longrightarrow> m + spec_adjust new f m = m"
proof -
  show "new \<le> m + spec_adjust new f m \<and> m + spec_adjust new f m \<le> m" if "new < m"
    using that div_pow_bounds(1,2) [of "m - new" "nat f"]
    by (simp add: spec_adjust_def Let_def drop_bit_eq_div)
  show "m \<le> m + spec_adjust new f m \<and> m + spec_adjust new f m < new" if "m < new"
    using that assms div_pow_bounds(1,3) [of "new - m" "nat f"]
    by (simp add: spec_adjust_def Let_def drop_bit_eq_div)
  show "m + spec_adjust new f m = m" if "m = new"
    using that by (simp add: spec_adjust_def drop_bit_eq_div)
qed

lemma MeanEstimatorFix_range:
  assumes "0 \<le> m" "m < 16384" "0 \<le> new" "new \<le> 16384" "0 < f"
  shows "0 \<le> WebRtc_MeanEstimatorFix new f m \<and> WebRtc_MeanEstimatorFix new f m < 16384"
proof -
  have e: "WebRtc_MeanEstimatorFix new f m = m + spec_adjust new f m"
    using assms by (intro MeanEstimatorFix_exact) simp_all
  consider "new < m" | "m < new" | "m = new"
    by linarith
  then show ?thesis
    using spec_adjust_between [OF assms(5), where new = new and m = m] assms
    unfolding e by cases auto
qed

lemma mean_update_pointwise:
  "mean_update handle i mean = mean[i := smoothed_value handle i (mean ! i)]"
  by (simp add: mean_update_def smoothed_value_def Let_def)

lemma process_far_shift:
  assumes "valid_state s"
  shows "process_far s far =
           s\<lparr>binary_far_history := far # butlast (binary_far_history s),
             far_bit_counts := BitCount far # butlast (far_bit_counts s)\<rparr>"
proof -
  have "length (far_bit_counts s) = nat (history_size s)"
    using assms by (simp add: valid_state_def)
  then show ?thesis
    using assms by (simp add: process_far_def valid_state_def memmove_up_shift)
qed

lemma process_near_shift:
  assumes "length (binary_near_history s) = nat (near_history_size s)"
  shows "process_near s near =
           (if near_history_size s > 1
            then (s\<lparr>binary_near_history := near # butlast (binary_near_history s)\<rparr>,
                  (near # butlast (binary_near_history s)) ! nat (near_history_size s - 1))
            else (s, near))"
  using assms by (simp add: process_near_def memmove_up_shift Let_def)

lemma BitCountComparison_map:
  assumes "length row = nat n" "length counts = nat n"
  shows "BitCountComparison v row n counts = map (\<lambda>w. BitCount (v XOR w)) row"
proof -
  have "length (BitCountComparison v row n counts) = length counts \<and>
      (\<forall>i < length counts. BitCountComparison v row n counts ! i =
         (if i < nat n then BitCount (v XOR row ! i) else counts ! i))"
    unfolding BitCountComparison_def using assms
    by (intro fold_pointwise [where F = "\<lambda>i _. BitCount (v XOR row ! i)"]) simp
  then show ?thesis
    using assms by (simp add: list_eq_iff_nth_eq)
qed

lemma process_means_nth:
  assumes "length (mean_bit_counts s) = nat (history_size s)"
  shows "length (mean_bit_counts (process_means s)) = nat (history_size s)"
    and "i < nat (history_size s) \<Longrightarrow>
           mean_bit_counts (process_means s) ! i = smoothed_value s i (mean_bit_counts s ! i)"
proof -
  have *: "length (fold (mean_update s) [0..<nat (history_size s)] (mean_bit_counts s)) =
        length (mean_bit_counts s) \<and>
      (\<forall>i < length (mean_bit_counts s).
         fold (mean_update s) [0..<nat (history_size s)] (mean_bit_counts s) ! i =
         (if i < nat (history_size s) then smoothed_value s i (mean_bit_counts s ! i)
          else mean_bit_counts s ! i))"
    unfolding mean_update_pointwise [abs_def] using assms
    by (intro fold_pointwise) simp
  show "length (mean_bit_counts (process_means s)) = nat (history_size s)"
    using * assms by (simp add: process_means_def)
  show "mean_bit_counts (process_means s) ! i = smoothed_value s i (mean_bit_counts s ! i)"
    if "i < nat (history_size s)"
    using * assms that by (simp add: process_means_def)
qed

lemma smoothed_value_cong:
  "far_bit_counts a = far_bit_counts b \<Longrightarrow> bit_counts a = bit_counts b \<Longrightarrow>
     smoothed_value a = smoothed_value b"
  by (simp add: smoothed_value_def fun_eq_iff)

lemma process_smoothed_fields:
  fixes s :: BinaryDelayEstimator and far near :: uint32_t
  assumes "valid_state s"
  defines "s' \<equiv> process_smoothed s far near"
  shows "history_size s' = history_size s"
    and "near_history_size s' = near_history_size s"
    and "minimum_probability s' = minimum_probability s"
    and "last_delay_probability s' = last_delay_probability s"
    and "last_delay s' = last_delay s"
    and "binary_far_history s' = far # butlast (binary_far_history s)"
    and "far_bit_counts s' = map BitCount (binary_far_history s')"
    and "binary_near_history s' =
           (if near_history_size s > 1 then near # butlast (binary_near_history s)
            else binary_near_history s)"
    and "bit_counts s' =
           map (\<lambda>w. BitCount (process_compared s far near XOR w)) (binary_far_history s')"
    and "length (mean_bit_counts s') = nat (history_size s)"
    and "\<forall>i < nat (history_size s).
           mean_bit_counts s' ! i = smoothed_value s' i (mean_bit_counts s ! i)"
proof -
  define a where "a = process_far s far"
  define b where "b = fst (process_near a near)"
  define c where "c = process_bit_counts b (process_compared s far near)"
  have s': "s' = process_means c"
    by (simp add: s'_def process_smoothed_def a_def b_def c_def process_compared_def
        split_beta Let_def)
  have a: "a = s\<lparr>binary_far_history := far # butlast (binary_far_history s),
             far_bit_counts := BitCount far # butlast (far_bit_counts s)\<rparr>"
    unfolding a_def by (rule process_far_shift [OF assms(1)])
  have len: "length (binary_far_history s) = nat (history_size s)"
      "length (bit_counts s) = nat (history_size s)"
      "length (mean_bit_counts s) = nat (history_size s)"
      "length (binary_near_history s) = nat (near_history_size s)"
      "far_bit_counts s = map BitCount (binary_far_history s)"
      "1 < history_size s"
    using assms(1) by (simp_all add: valid_state_def)
  have b: "b = a\<lparr>binary_near_history :=
             (if near_history_size s > 1 then near # butlast (binary_near_history s)
              else binary_near_history s)\<rparr>"
    unfolding b_def using len by (subst process_near_shift) (simp_all add: a)
  have ne: "binary_far_history s \<noteq> []"
    using len by auto
  have c: "c = b\<lparr>bit_counts :=
             map (\<lambda>w. BitCount (process_compared s far near XOR w))
               (far # butlast (binary_far_history s))\<rparr>"
    unfolding c_def process_bit_counts_def using len ne
    by (subst BitCountComparison_map) (simp_all add: a b)
  have m: "length (mean_bit_counts (process_means c)) = nat (history_size c)"
      "\<forall>i < nat (history_size c).
         mean_bit_counts (process_means c) ! i = smoothed_value c i (mean_bit_counts c ! i)"
    using len by (simp_all add: process_means_nth a b c)
  have sv: "smoothed_value (process_means c) = smoothed_value c"
    by (rule smoothed_value_cong) (simp_all add: process_means_def)
  have r: "process_means c = c\<lparr>mean_bit_counts := mean_bit_counts (process_means c)\<rparr>"
    by (simp add: process_means_def)
  show "history_size s' = history_size s"
    and "near_history_size s' = near_history_size s"
    and "minimum_probability s' = minimum_probability s"
    and "last_delay_probability s' = last_delay_probability s"
    and "last_delay s' = last_delay s"
    and "binary_far_history s' = far # butlast (binary_far_history s)"
    and "binary_near_history s' =
           (if near_history_size s > 1 then near # butlast (binary_near_history s)
            else binary_near_history s)"
    unfolding s' by (subst r, simp add: a b c)+
  show "far_bit_counts s' = map BitCount (binary_far_history s')"
    unfolding s' using len by (subst (1 2) r) (simp add: a b c map_butlast)
  show "bit_counts s' =
           map (\<lambda>w. BitCount (process_compared s far near XOR w)) (binary_far_history s')"
    unfolding s' by (subst (1 2) r) (simp add: a b c)
  show "length (mean_bit_counts s') = nat (history_size s)"
    unfolding s' using m(1) by (simp add: a b c)
  show "\<forall>i < nat (history_size s).
           mean_bit_counts s' ! i = smoothed_value s' i (mean_bit_counts s ! i)"
    unfolding s' sv using m(2) by (simp add: a b c)
qed

lemma scan_invariant:
  assumes "n \<le> length mean"
    and "fold (scan_step mean) [0..<n] (- 1, 16384, 0) = (c, b, w)"
  shows "(\<forall>j<n. b \<le> mean ! j) \<and> b \<le> 16384 \<and>
         ((c = - 1 \<and> b = 16384) \<or>
          (0 \<le> c \<and> nat c < n \<and> mean ! nat c = b \<and> b < 16384 \<and> (\<forall>j < nat c. b < mean ! j))) \<and>
         (\<forall>j<n. mean ! j \<le> w) \<and> 0 \<le> w \<and> (w = 0 \<or> (\<exists>j<n. mean ! j = w))"
  using assms
proof (induction n arbitrary: c b w)
  case 0
  then show ?case by simp
next
  case (Suc n)
  obtain c' b' w' where p: "fold (scan_step mean) [0..<n] (- 1, 16384, 0) = (c', b', w')"
    by (cases "fold (scan_step mean) [0..<n] (- 1, 16384, 0)") auto
  have ih: "(\<forall>j<n. b' \<le> mean ! j) \<and> b' \<le> 16384 \<and>
         ((c' = - 1 \<and> b' = 16384) \<or>
          (0 \<le> c' \<and> nat c' < n \<and> mean ! nat c' = b' \<and> b' < 16384 \<and> (\<forall>j < nat c'. b' < mean ! j))) \<and>
         (\<forall>j<n. mean ! j \<le> w') \<and> 0 \<le> w' \<and> (w' = 0 \<or> (\<exists>j<n. mean ! j = w'))"
    using Suc.prems(1) by (intro Suc.IH [OF _ p]) simp
  have st: "scan_step mean n (c', b', w') = (c, b, w)"
    using Suc.prems(2) by (simp add: p)
  have b: "b = (if mean ! n < b' then mean ! n else b')"
    and c: "c = (if mean ! n < b' then int n else c')"
    and w: "w = (if mean ! n > w' then mean ! n else w')"
    using st by (auto simp: scan_step_def Let_def split: if_splits)
  have 1: "\<forall>j<Suc n. b \<le> mean ! j"
    using ih by (auto simp: b less_Suc_eq)
  have 2: "b \<le> 16384"
    using ih by (auto simp: b)
  have 3: "(c = - 1 \<and> b = 16384) \<or>
          (0 \<le> c \<and> nat c < Suc n \<and> mean ! nat c = b \<and> b < 16384 \<and> (\<forall>j < nat c. b < mean ! j))"
  proof (cases "mean ! n < b'")
    case True
    with ih show ?thesis
      by (auto simp: b c)
  next
    case False
    with ih show ?thesis
      by (auto simp: b c)
  qed
  have 4: "\<forall>j<Suc n. mean ! j \<le> w"
    using ih by (auto simp: w less_Suc_eq)
  have 5: "0 \<le> w \<and> (w = 0 \<or> (\<exists>j<Suc n. mean ! j = w))"
    using ih by (auto simp: w less_Suc_eq)
  from 1 2 3 4 5 show ?case by blast
qed

lemma process_scan_general:
  assumes "0 < history_size t" and "length (mean_bit_counts t) = nat (history_size t)"
    and "process_scan t = (c, b, w)"
  defines "mean \<equiv> mean_bit_counts t"
  shows "b = (if Min (set mean) < 16384 then Min (set mean) else 16384)"
    and "w = (if 0 < Max (set mean) then Max (set mean) else 0)"
    and "Min (set mean) < 16384 \<Longrightarrow>
           0 \<le> c \<and> nat c < length mean \<and> mean ! nat c = Min (set mean) \<and>
           (\<forall>j < nat c. Min (set mean) < mean ! j)"
    and "\<not> Min (set mean) < 16384 \<Longrightarrow> c = - 1"
proof -
  let ?n = "nat (history_size t)"
  have n: "?n = length mean" "mean \<noteq> []"
    using assms(1,2) by (auto simp: mean_def)
  have inv: "(\<forall>j<?n. b \<le> mean ! j) \<and> b \<le> 16384 \<and>
         ((c = - 1 \<and> b = 16384) \<or>
          (0 \<le> c \<and> nat c < ?n \<and> mean ! nat c = b \<and> b < 16384 \<and> (\<forall>j < nat c. b < mean ! j))) \<and>
         (\<forall>j<?n. mean ! j \<le> w) \<and> 0 \<le> w \<and> (w = 0 \<or> (\<exists>j<?n. mean ! j = w))"
    using assms(3) n unfolding process_scan_def mean_def [symmetric]
    by (intro scan_invariant) simp_all
  have lo: "\<forall>x \<in> set mean. b \<le> x" and hi: "\<forall>x \<in> set mean. x \<le> w"
    using inv n by (auto simp: in_set_conv_nth)
  have minle: "b \<le> Min (set mean)" and maxle: "Max (set mean) \<le> w"
    using lo hi n by simp_all
  show b: "b = (if Min (set mean) < 16384 then Min (set mean) else 16384)"
  proof (cases "c = - 1 \<and> b = 16384")
    case True
    with minle show ?thesis by simp
  next
    case False
    with inv have "mean ! nat c = b" "nat c < length mean" "b < 16384"
      using n by auto
    then have "b \<in> set mean"
      by (auto simp: in_set_conv_nth)
    then have "Min (set mean) \<le> b"
      by simp
    with minle \<open>b < 16384\<close> show ?thesis by simp
  qed
  show "w = (if 0 < Max (set mean) then Max (set mean) else 0)"
  proof (cases "w = 0")
    case True
    with maxle show ?thesis by simp
  next
    case False
    with inv obtain j where "j < length mean" "mean ! j = w"
      using n by auto
    then have "w \<in> set mean"
      by (auto simp: in_set_conv_nth)
    then have "w \<le> Max (set mean)"
      by simp
    with maxle inv False show ?thesis by simp
  qed
  show "0 \<le> c \<and> nat c < length mean \<and> mean ! nat c = Min (set mean) \<and>
           (\<forall>j < nat c. Min (set mean) < mean ! j)" if "Min (set mean) < 16384"
    using that inv b n by auto
  show "c = - 1" if "\<not> Min (set mean) < 16384"
    using that inv b by auto
qed

lemma shl32_9: "0 \<le> x \<Longrightarrow> x \<le> 32 \<Longrightarrow> shl32 x 9 = x * 512"
  by (simp add: shl32_def push_bit_eq_mult int32_small)

lemma smoothed_value_range:
  assumes "0 \<le> v" "v < 16384"
    and "0 \<le> far_bit_counts t ! i" "far_bit_counts t ! i \<le> 32"
    and "0 \<le> bit_counts t ! i" "bit_counts t ! i \<le> 32"
  shows "0 \<le> smoothed_value t i v \<and> smoothed_value t i v < 16384"
proof (cases "far_bit_counts t ! i > 0")
  case True
  note s = shifts_range [OF True assms(4)]
  have "0 \<le> WebRtc_MeanEstimatorFix (bit_counts t ! i * 512)
            (13 - 3 * far_bit_counts t ! i div 16) v \<and>
        WebRtc_MeanEstimatorFix (bit_counts t ! i * 512)
            (13 - 3 * far_bit_counts t ! i div 16) v < 16384"
    using assms s(2) by (intro MeanEstimatorFix_range) simp_all
  with True show ?thesis
    using assms by (simp add: smoothed_value_def s(1) shl32_9)
next
  case False
  with assms show ?thesis
    by (simp add: smoothed_value_def)
qed

lemma valid_smoothed:
  assumes "valid_state s"
  shows "valid_state (process_smoothed s far near)"
proof -
  let ?s = "process_smoothed s far near"
  note f = process_smoothed_fields [OF assms, of far near]
  have len: "length (binary_far_history s) = nat (history_size s)" "1 < history_size s"
    "length (binary_near_history s) = nat (near_history_size s)"
    using assms by (simp_all add: valid_state_def)
  then have ne: "binary_far_history s \<noteq> []" "near_history_size s > 1 \<Longrightarrow> binary_near_history s \<noteq> []"
    by auto
  have old: "\<forall>i < nat (history_size s). 0 \<le> mean_bit_counts s ! i \<and> mean_bit_counts s ! i < 16384"
    using assms by (simp add: valid_state_def all_set_conv_all_nth)
  have "0 \<le> mean_bit_counts ?s ! i \<and> mean_bit_counts ?s ! i < 16384"
    if "i < nat (history_size s)" for i
  proof -
    have l: "i < length (binary_far_history ?s)"
      using that len ne by (simp add: f(6))
    have "far_bit_counts ?s ! i = BitCount (binary_far_history ?s ! i)"
      unfolding f(7) using l by (rule nth_map)
    moreover have "bit_counts ?s ! i =
        BitCount (process_compared s far near XOR binary_far_history ?s ! i)"
      unfolding f(9) using l by (rule nth_map)
    ultimately have "0 \<le> smoothed_value ?s i (mean_bit_counts s ! i) \<and>
          smoothed_value ?s i (mean_bit_counts s ! i) < 16384"
      using old that
      by (intro smoothed_value_range) (simp_all add: BitCount_range)
    with that f(11) show ?thesis by simp
  qed
  then have "\<forall>m \<in> set (mean_bit_counts ?s). 0 \<le> m \<and> m < 16384"
    using f(10) by (simp add: all_set_conv_all_nth)
  then show ?thesis
    using assms len ne unfolding valid_state_def [of ?s] f(1-5)
    by (simp add: f(6-10) valid_state_def)
qed

lemma candidates_range:
  assumes "valid_state s" and "process_candidates s far near = (c, b, w)"
  defines "mean \<equiv> mean_bit_counts (process_smoothed s far near)"
  shows "b = Min (set mean)" and "0 \<le> b" and "b < 16384"
    and "w = Max (set mean)" and "0 \<le> w" and "w < 16384" and "b \<le> w"
    and "0 \<le> c" and "c < history_size s" and "mean ! nat c = b"
    and "\<forall>j < nat c. b < mean ! j"
proof -
  let ?t = "process_smoothed s far near"
  have v: "valid_state ?t"
    using assms(1) by (rule valid_smoothed)
  then have h: "0 < history_size ?t" "length (mean_bit_counts ?t) = nat (history_size ?t)"
    and r: "\<forall>m \<in> set mean. 0 \<le> m \<and> m < 16384"
    by (simp_all add: valid_state_def mean_def)
  have hs: "history_size ?t = history_size s"
    using assms(1) by (rule process_smoothed_fields)
  have ne: "mean \<noteq> []"
    using h by (auto simp: mean_def)
  then have mn: "Min (set mean) \<in> set mean" and mx: "Max (set mean) \<in> set mean"
    by simp_all
  have sc: "process_scan ?t = (c, b, w)"
    using assms(2) by (simp add: process_candidates_def)
  note g = process_scan_general [OF h sc, folded mean_def]
  have lt: "Min (set mean) < 16384" and pos: "0 \<le> Max (set mean)"
    using r mn mx by auto
  show "b = Min (set mean)"
    using g(1) lt by simp
  then show "0 \<le> b" and "b < 16384"
    using r mn by auto
  show w: "w = Max (set mean)"
    using g(2) pos by auto
  then show "0 \<le> w" and "w < 16384"
    using r mx by auto
  show "b \<le> w"
    using \<open>b = Min (set mean)\<close> w ne by simp
  show "0 \<le> c" and "c < history_size s" and "mean ! nat c = b" and "\<forall>j < nat c. b < mean ! j"
    using g(3) [OF lt] h hs \<open>b = Min (set mean)\<close> by (auto simp: mean_def)
qed

lemma process_minimum_probability_keeps:
  "last_delay_probability (process_minimum_probability t b w) = last_delay_probability t"
  "last_delay (process_minimum_probability t b w) = last_delay t"
  by (simp_all add: process_minimum_probability_def Let_def)

lemma process_result:
  assumes "valid_state s" and "process_candidates s far near = (c, b, w)"
  defines "t \<equiv> process_smoothed s far near"
    and "s' \<equiv> fst (WebRtc_ProcessBinarySpectrum s far near)"
  shows "snd (WebRtc_ProcessBinarySpectrum s far near) = last_delay s'"
    and "s' = t\<lparr>minimum_probability := minimum_probability s',
                last_delay_probability := last_delay_probability s',
                last_delay := last_delay s'\<rparr>"
    and "minimum_probability s' =
           (if minimum_probability s > 8704 \<and> w - b > 2816
            then min (minimum_probability s) (max 8704 (b + 1024))
            else minimum_probability s)"
    and "last_delay_probability s' =
           (if w > b + 1024 \<and> b < int32 (last_delay_probability s + 1) then b
            else int32 (last_delay_probability s + 1))"
    and "last_delay s' =
           (if w > b + 1024 \<and>
               (b < minimum_probability s' \<or> b < int32 (last_delay_probability s + 1))
            then c else last_delay s)"
proof -
  note r = candidates_range [OF assms(1,2)]
  note f = process_smoothed_fields [OF assms(1), of far near, folded t_def]
  have sc: "process_scan t = (c, b, w)"
    using assms(2) by (simp add: process_candidates_def t_def)
  have i: "int32 (w - b) = w - b" "int32 (b + 1024) = b + 1024"
    using r(2,3,5,6) by (simp_all add: int32_small)
  have s': "s' = process_decision (process_minimum_probability t b w) c b w"
    by (simp add: s'_def WebRtc_ProcessBinarySpectrum_def Let_def sc t_def [symmetric])
  show "snd (WebRtc_ProcessBinarySpectrum s far near) = last_delay s'"
    by (simp add: s'_def WebRtc_ProcessBinarySpectrum_def Let_def split_beta)
  show "s' = t\<lparr>minimum_probability := minimum_probability s',
                last_delay_probability := last_delay_probability s',
                last_delay := last_delay s'\<rparr>"
    unfolding s'
    by (simp add: process_decision_def process_minimum_probability_def Let_def)
  show mp: "minimum_probability s' =
           (if minimum_probability s > 8704 \<and> w - b > 2816
            then min (minimum_probability s) (max 8704 (b + 1024))
            else minimum_probability s)"
    unfolding s'
    by (simp add: process_decision_def process_minimum_probability_def Let_def i f
        kProbabilityLowerLimit_def kProbabilityMinSpread_def kProbabilityOffset_def)
  show "last_delay_probability s' =
           (if w > b + 1024 \<and> b < int32 (last_delay_probability s + 1) then b
            else int32 (last_delay_probability s + 1))"
    unfolding s'
    by (simp add: process_decision_def process_minimum_probability_def Let_def i f
        kProbabilityLowerLimit_def kProbabilityMinSpread_def kProbabilityOffset_def)
  have "minimum_probability (process_minimum_probability t b w) = minimum_probability s'"
    unfolding s' by (simp add: process_decision_def Let_def)
  then show "last_delay s' =
           (if w > b + 1024 \<and>
               (b < minimum_probability s' \<or> b < int32 (last_delay_probability s + 1))
            then c else last_delay s)"
    unfolding s' [symmetric]
    by (subst s')
      (auto simp add: process_decision_def Let_def i f kProbabilityOffset_def
        process_minimum_probability_keeps)
qed

lemma in_int32_int32: "in_int32 (int32 x)"
  unfolding in_int32_def int32_def
  using signed_take_bit_int_greater_eq_minus_exp [of 31 x] signed_take_bit_int_less_exp [of 31 x]
  by simp

lemma valid_process:
  assumes "valid_state s"
  shows "valid_state (fst (WebRtc_ProcessBinarySpectrum s far near))"
    and "history_size (fst (WebRtc_ProcessBinarySpectrum s far near)) = history_size s"
    and "near_history_size (fst (WebRtc_ProcessBinarySpectrum s far near)) = near_history_size s"
proof -
  let ?t = "process_smoothed s far near" and ?s = "fst (WebRtc_ProcessBinarySpectrum s far near)"
  obtain c b w where cbw: "process_candidates s far near = (c, b, w)"
    by (cases "process_candidates s far near") auto
  note r = candidates_range [OF assms cbw]
  note p = process_result [OF assms cbw]
  note f = process_smoothed_fields [OF assms, of far near]
  have v: "valid_state ?t"
    using assms by (rule valid_smoothed)
  have old: "8704 \<le> minimum_probability s" "minimum_probability s \<le> 16384"
    "last_delay s = - 2 \<or> (0 \<le> last_delay s \<and> last_delay s < history_size s)"
    using assms by (simp_all add: valid_state_def)
  have mp: "8704 \<le> minimum_probability ?s" "minimum_probability ?s \<le> 16384"
    unfolding p(3) using old by auto
  have lp: "in_int32 (last_delay_probability ?s)"
    unfolding p(4) using r(2,3) by (simp add: in_int32_int32) (simp add: in_int32_def)
  have ld: "last_delay ?s = - 2 \<or> (0 \<le> last_delay ?s \<and> last_delay ?s < history_size s)"
    unfolding p(5) using old r(8,9) by auto
  show "valid_state ?s"
    using v mp lp ld by (subst p(2)) (simp add: valid_state_def f(1))
  show "history_size ?s = history_size s"
    by (subst p(2)) (simp add: f(1))
  show "near_history_size ?s = near_history_size s"
    by (subst p(2)) (simp add: f(2))
qed

lemma BitCount_0: "BitCount 0 = 0"
  by (simp add: BitCount_def)

lemma fold_set_all:
  assumes "n = length xs"
  shows "fold (\<lambda>i m. m[i := v]) [0..<n] xs = replicate n v"
proof -
  have "length (fold (\<lambda>i m. m[i := v]) [0..<n] xs) = length xs \<and>
      (\<forall>i < length xs. fold (\<lambda>i m. m[i := v]) [0..<n] xs ! i =
         (if i < n then v else xs ! i))"
    using assms by (intro fold_pointwise [where F = "\<lambda>_ _. v"]) simp
  with assms show ?thesis
    by (intro nth_equalityI) simp_all
qed

lemma created_shape:
  assumes "WebRtc_CreateBinaryDelayEstimator heap max_delay lookahead = Some s"
  shows "1 < history_size s"
    and "length (mean_bit_counts s) = nat (history_size s)"
    and "length (bit_counts s) = nat (history_size s)"
    and "length (binary_far_history s) = nat (history_size s)"
    and "length (far_bit_counts s) = nat (history_size s)"
    and "length (binary_near_history s) = nat (near_history_size s)"
proof -
  let ?h = "int32 (max_delay + lookahead)"
  have c: "max_delay \<ge> 0 \<and> lookahead \<ge> 0 \<and> ?h > 1"
  proof (rule ccontr)
    assume "\<not> ?thesis"
    then have "WebRtc_CreateBinaryDelayEstimator heap max_delay lookahead = None"
      by (auto simp add: WebRtc_CreateBinaryDelayEstimator_def Let_def)
    with assms show False by simp
  qed
  then obtain self where self: "alloc_self heap = Some self"
    using assms
    by (cases "alloc_self heap") (simp_all add: WebRtc_CreateBinaryDelayEstimator_def Let_def)
  have "s = self\<lparr>history_size := ?h,
                 near_history_size := int32 (lookahead + 1),
                 mean_bit_counts := block ?h (the (alloc_mean_bit_counts heap)),
                 bit_counts := block ?h (the (alloc_bit_counts heap)),
                 binary_far_history := block ?h (the (alloc_binary_far_history heap)),
                 binary_near_history :=
                   block (int32 (lookahead + 1)) (the (alloc_binary_near_history heap)),
                 far_bit_counts := block ?h (the (alloc_far_bit_counts heap))\<rparr>"
    using assms c self
    by (simp add: WebRtc_CreateBinaryDelayEstimator_def Let_def split: if_splits)
  then show "1 < history_size s"
    and "length (mean_bit_counts s) = nat (history_size s)"
    and "length (bit_counts s) = nat (history_size s)"
    and "length (binary_far_history s) = nat (history_size s)"
    and "length (far_bit_counts s) = nat (history_size s)"
    and "length (binary_near_history s) = nat (near_history_size s)"
    using c by (simp_all add: block_def)
qed

lemma created_args:
  assumes "WebRtc_CreateBinaryDelayEstimator heap max_delay lookahead = Some s"
  shows "0 \<le> max_delay" and "0 \<le> lookahead"
    and "history_size s = int32 (max_delay + lookahead)"
    and "near_history_size s = int32 (lookahead + 1)"
proof -
  have c: "max_delay \<ge> 0 \<and> lookahead \<ge> 0 \<and> int32 (max_delay + lookahead) > 1"
  proof (rule ccontr)
    assume "\<not> ?thesis"
    then have "WebRtc_CreateBinaryDelayEstimator heap max_delay lookahead = None"
      by (auto simp add: WebRtc_CreateBinaryDelayEstimator_def Let_def)
    with assms show False by simp
  qed
  then show "0 \<le> max_delay" and "0 \<le> lookahead"
    by simp_all
  from c obtain self where self: "alloc_self heap = Some self"
    using assms
    by (cases "alloc_self heap") (simp_all add: WebRtc_CreateBinaryDelayEstimator_def Let_def)
  show "history_size s = int32 (max_delay + lookahead)"
    and "near_history_size s = int32 (lookahead + 1)"
    using assms c self
    by (auto simp add: WebRtc_CreateBinaryDelayEstimator_def Let_def split: if_splits)
qed

lemma init_fields:
  assumes "length (mean_bit_counts s) = nat (history_size s)"
    and "length (bit_counts s) = nat (history_size s)"
    and "length (binary_far_history s) = nat (history_size s)"
    and "length (far_bit_counts s) = nat (history_size s)"
    and "length (binary_near_history s) = nat (near_history_size s)"
  shows "WebRtc_InitBinaryDelayEstimator s =
           s\<lparr>bit_counts := replicate (nat (history_size s)) 0,
             binary_far_history := replicate (nat (history_size s)) 0,
             binary_near_history := replicate (nat (near_history_size s)) 0,
             far_bit_counts := replicate (nat (history_size s)) 0,
             mean_bit_counts := replicate (nat (history_size s)) 10240,
             minimum_probability := 16384,
             last_delay_probability := 16384,
             last_delay := - 2\<rparr>"
  using assms
  by (simp add: WebRtc_InitBinaryDelayEstimator_def memset0_def fold_set_all shl32_def
      push_bit_eq_mult int32_small)

lemma valid_init:
  assumes "WebRtc_CreateBinaryDelayEstimator heap max_delay lookahead = Some s"
  shows "valid_state (WebRtc_InitBinaryDelayEstimator s)"
  using created_shape [OF assms]
  by (simp add: init_fields valid_state_def BitCount_0 in_int32_def)

lemma process_frames_snoc:
  "process_frames s (fs @ [(far, near)]) =
     (fst (WebRtc_ProcessBinarySpectrum (fst (process_frames s fs)) far near),
      snd (process_frames s fs) @
        [snd (WebRtc_ProcessBinarySpectrum (fst (process_frames s fs)) far near)])"
proof (induction fs arbitrary: s)
  case Nil
  then show ?case by (simp add: split_beta)
next
  case (Cons a fs)
  obtain f n where a: "a = (f, n)"
    by (cases a) auto
  show ?case
    unfolding a by (simp add: split_beta Cons.IH)
qed

lemma valid_frames:
  assumes "valid_state s"
  shows "valid_state (fst (process_frames s fs))"
    and "history_size (fst (process_frames s fs)) = history_size s"
    and "near_history_size (fst (process_frames s fs)) = near_history_size s"
  using assms
  by (induction fs rule: rev_induct) (auto simp: process_frames_snoc valid_process)

lemma frames_delays:
  assumes "valid_state s"
  shows "\<forall>d \<in> set (snd (process_frames s fs)). d = - 2 \<or> (0 \<le> d \<and> d < history_size s)"
proof (induction fs rule: rev_induct)
  case Nil
  then show ?case by simp
next
  case (snoc a fs)
  obtain far near where a: "a = (far, near)"
    by (cases a) auto
  let ?s = "fst (process_frames s fs)"
  have v: "valid_state ?s" and h: "history_size ?s = history_size s"
    using assms by (simp_all add: valid_frames)
  obtain c b w where cbw: "process_candidates ?s far near = (c, b, w)"
    by (cases "process_candidates ?s far near") auto
  have "valid_state (fst (WebRtc_ProcessBinarySpectrum ?s far near))"
    using v by (rule valid_process)
  then have "last_delay (fst (WebRtc_ProcessBinarySpectrum ?s far near)) = - 2 \<or>
      (0 \<le> last_delay (fst (WebRtc_ProcessBinarySpectrum ?s far near)) \<and>
       last_delay (fst (WebRtc_ProcessBinarySpectrum ?s far near)) < history_size s)"
    by (simp add: valid_state_def valid_process(2) [OF v] h)
  then show ?case
    using snoc by (simp add: a process_frames_snoc process_result(1) [OF v cbw])
qed

lemma init_history_size:
  "history_size (WebRtc_InitBinaryDelayEstimator s) = history_size s"
  "near_history_size (WebRtc_InitBinaryDelayEstimator s) = near_history_size s"
  by (simp_all add: WebRtc_InitBinaryDelayEstimator_def)

lemma process_arrays:
  fixes s :: BinaryDelayEstimator and far near :: uint32_t
  assumes "valid_state s"
  defines "t \<equiv> process_smoothed s far near"
    and "s' \<equiv> fst (WebRtc_ProcessBinarySpectrum s far near)"
  shows "mean_bit_counts s' = mean_bit_counts t"
    and "bit_counts s' = bit_counts t"
    and "far_bit_counts s' = far_bit_counts t"
    and "binary_far_history s' = binary_far_history t"
    and "binary_near_history s' = binary_near_history t"
proof -
  obtain c b w where cbw: "process_candidates s far near = (c, b, w)"
    by (cases "process_candidates s far near") auto
  note p = process_result(2) [OF assms(1) cbw, folded t_def s'_def]
  show "mean_bit_counts s' = mean_bit_counts t"
    and "bit_counts s' = bit_counts t"
    and "far_bit_counts s' = far_bit_counts t"
    and "binary_far_history s' = binary_far_history t"
    and "binary_near_history s' = binary_near_history t"
    by (subst p, simp)+
qed

lemma process_compared_eq:
  assumes "valid_state s"
  shows "process_compared s far near =
           (if near_history_size s > 1
            then (near # butlast (binary_near_history s)) ! nat (near_history_size s - 1)
            else near)"
proof -
  have "length (binary_near_history s) = nat (near_history_size s)"
    using assms by (simp add: valid_state_def)
  then show ?thesis
    unfolding process_compared_def process_far_shift [OF assms]
    by (subst process_near_shift) simp_all
qed

lemma near_history_frames:
  assumes "valid_state s" and "near_history_size s > 1"
    and "binary_near_history s = replicate (nat (near_history_size s)) 0"
  shows "binary_near_history (fst (process_frames s fs)) =
           take (nat (near_history_size s))
             (rev (map snd fs) @ replicate (nat (near_history_size s)) 0)"
proof (induction fs rule: rev_induct)
  case Nil
  then show ?case using assms(3) by simp
next
  case (snoc a fs)
  obtain far near where a: "a = (far, near)"
    by (cases a) auto
  let ?s = "fst (process_frames s fs)" and ?n = "nat (near_history_size s)"
  let ?l = "rev (map snd fs) @ replicate ?n 0"
  have v: "valid_state ?s" and h: "near_history_size ?s = near_history_size s"
    using assms(1) by (simp_all add: valid_frames)
  have "binary_near_history (fst (WebRtc_ProcessBinarySpectrum ?s far near)) =
      near # butlast (binary_near_history ?s)"
    using assms(2) by (simp add: process_arrays(5) [OF v] process_smoothed_fields(8) [OF v] h)
  also have "butlast (binary_near_history ?s) = take (?n - 1) ?l"
    unfolding snoc.IH by (rule butlast_take) simp
  also have "near # take (?n - 1) ?l = take ?n (near # ?l)"
    using assms(2) by (cases ?n) simp_all
  finally show ?case
    by (simp add: a process_frames_snoc)
qed

lemma popcount32_zero: "popcount32 w = 0 \<longleftrightarrow> w = 0"
proof
  assume "popcount32 w = 0"
  then have "\<forall>n < 32. \<not> bit w n"
    by (auto simp: popcount32_def filter_empty_conv)
  then show "w = 0"
    by (intro bit_word_eqI) simp
next
  assume "w = 0"
  then show "popcount32 w = 0"
    by (simp add: popcount32_def)
qed

lemma smoothed_nth:
  fixes s :: BinaryDelayEstimator and far near :: uint32_t
  assumes "valid_state s" and "i < nat (history_size s)"
  defines "s' \<equiv> fst (WebRtc_ProcessBinarySpectrum s far near)"
  shows "mean_bit_counts s' ! i = smoothed_value s' i (mean_bit_counts s ! i)"
    and "far_bit_counts s' ! i = BitCount (binary_far_history s' ! i)"
    and "bit_counts s' ! i = BitCount (process_compared s far near XOR binary_far_history s' ! i)"
    and "length (mean_bit_counts s') = nat (history_size s)"
proof -
  let ?t = "process_smoothed s far near"
  note a = process_arrays [OF assms(1), of far near, folded s'_def]
  note f = process_smoothed_fields [OF assms(1), of far near]
  have sv: "smoothed_value s' = smoothed_value ?t"
    by (rule smoothed_value_cong) (simp_all add: a)
  have l: "i < length (binary_far_history ?t)"
    using assms(1,2) unfolding f(6) by (auto simp: valid_state_def)
  show "mean_bit_counts s' ! i = smoothed_value s' i (mean_bit_counts s ! i)"
    unfolding sv a using f(11) assms(2) by simp
  show "far_bit_counts s' ! i = BitCount (binary_far_history s' ! i)"
    unfolding a f(7) using l by (rule nth_map)
  show "bit_counts s' ! i = BitCount (process_compared s far near XOR binary_far_history s' ! i)"
    unfolding a f(9) using l by (rule nth_map)
  show "length (mean_bit_counts s') = nat (history_size s)"
    unfolding a by (rule f(10))
qed

lemma smoothed_exact:
  assumes "valid_state handle" and "i < nat (history_size handle)"
  shows "let s' = fst (WebRtc_ProcessBinarySpectrum handle far near);
             shift = 13 - drop_bit 4 (3 * far_bit_counts s' ! i);
             new = push_bit 9 (bit_counts s' ! i);
             mean = mean_bit_counts handle ! i
         in far_bit_counts s' ! i > 0 \<longrightarrow>
              mean_bit_counts s' ! i = mean + spec_adjust new shift mean \<and>
              mean_bit_counts s' ! i = WebRtc_MeanEstimatorFix new shift mean \<and>
              7 \<le> shift \<and> shift \<le> 13"
proof -
  let ?s = "fst (WebRtc_ProcessBinarySpectrum handle far near)"
  let ?c = "far_bit_counts ?s ! i" and ?b = "bit_counts ?s ! i"
  let ?m = "mean_bit_counts handle ! i"
  note n = smoothed_nth [OF assms, of far near]
  have c: "?c \<le> 32" and b: "0 \<le> ?b" "?b \<le> 32"
    unfolding n(2,3) by (simp_all add: BitCount_range)
  have m: "0 \<le> ?m" "?m < 16384"
    using assms by (simp_all add: valid_state_def)
  have "mean_bit_counts ?s ! i = ?m + spec_adjust (push_bit 9 ?b) (13 - drop_bit 4 (3 * ?c)) ?m \<and>
      mean_bit_counts ?s ! i = WebRtc_MeanEstimatorFix (push_bit 9 ?b) (13 - drop_bit 4 (3 * ?c)) ?m \<and>
      7 \<le> 13 - drop_bit 4 (3 * ?c) \<and> 13 - drop_bit 4 (3 * ?c) \<le> 13"
    if pos: "?c > 0"
  proof -
    note s = shifts_range [OF pos c]
    have e: "mean_bit_counts ?s ! i = WebRtc_MeanEstimatorFix (?b * 512) (13 - 3 * ?c div 16) ?m"
      unfolding n(1) using pos b by (simp add: smoothed_value_def s(1) shl32_9)
    have "WebRtc_MeanEstimatorFix (?b * 512) (13 - 3 * ?c div 16) ?m =
        ?m + spec_adjust (?b * 512) (13 - 3 * ?c div 16) ?m"
      using m b s(2) by (intro MeanEstimatorFix_exact) simp_all
    with e s(2,3) show ?thesis
      by (simp add: push_bit_eq_mult drop_bit_eq_div)
  qed
  then show ?thesis
    unfolding Let_def by blast
qed

section \<open>Concrete runs\<close>

lemma upt_2: "[0..<2] = [0, Suc 0]"
  by (simp add: upt_rec)

lemma example_create: "WebRtc_CreateBinaryDelayEstimator zero_heap 1 1 = Some example_created"
  by (simp add: WebRtc_CreateBinaryDelayEstimator_def zero_heap_def example_created_def Let_def
      int32_small block_def upt_2)

lemma example_valid: "valid_state example_state"
  by (simp add: valid_state_def example_state_def BitCount_0 in_int32_def)

lemma example_smoothed: "process_smoothed example_state 0 0 = example_state"
  by (simp add: process_smoothed_def process_far_def process_near_def process_bit_counts_def
      process_means_def BitCountComparison_def mean_update_def memmove_up_def upt_2 Let_def
      example_state_def BitCount_0 shl32_def int32_small)

lemma example_candidates: "process_candidates example_state 0 0 = (1, 100, 16000)"
  unfolding process_candidates_def example_smoothed
  by (simp add: process_scan_def scan_step_def example_state_def upt_2)

lemma example_BitCount: "BitCount 0xFFFF = 16"
  by (simp add: BitCount_def)

lemma example_MeanEstimatorFix: "WebRtc_MeanEstimatorFix 8192 10 16000 = 15993"
  by (simp add: WebRtc_MeanEstimatorFix_def shr32_def drop_bit_eq_div int32_small)

lemma example_shifts: "int32 (kShiftsAtZero - shr32 (int32 (kShiftsLinearSlope * 16)) 4) = 10"
  by (simp add: kShiftsAtZero_def kShiftsLinearSlope_def shr32_def drop_bit_eq_div int32_small)

lemma example_smoothed_far:
  "process_smoothed example_state 0xFFFF 0 =
     example_state\<lparr>binary_far_history := [0xFFFF, 0], far_bit_counts := [16, 0],
       bit_counts := [16, 0], mean_bit_counts := [15993, 100]\<rparr>"
  by (simp add: process_smoothed_def process_far_def process_near_def process_bit_counts_def
      process_means_def BitCountComparison_def mean_update_def memmove_up_def upt_2 Let_def
      example_state_def BitCount_0 example_BitCount shl32_def int32_small push_bit_eq_mult
      example_MeanEstimatorFix example_shifts)

lemma example_process_far:
  "WebRtc_ProcessBinarySpectrum example_state 0xFFFF 0 =
     (example_state\<lparr>binary_far_history := [0xFFFF, 0], far_bit_counts := [16, 0],
        bit_counts := [16, 0], mean_bit_counts := [15993, 100],
        minimum_probability := 8704, last_delay_probability := 100, last_delay := 1\<rparr>, 1)"
  unfolding WebRtc_ProcessBinarySpectrum_def example_smoothed_far
  by (simp add: process_scan_def scan_step_def process_minimum_probability_def
      process_decision_def upt_2 Let_def example_state_def kProbabilityLowerLimit_def
      kProbabilityMinSpread_def kProbabilityOffset_def int32_small)

lemma example_init: "WebRtc_InitBinaryDelayEstimator example_created = example_initial"
  by (simp add: WebRtc_InitBinaryDelayEstimator_def example_created_def example_initial_def
      memset0_def upt_2 shl32_def push_bit_eq_mult int32_small)

lemma example_MeanEstimatorFix_init: "WebRtc_MeanEstimatorFix 8192 10 10240 = 10238"
  by (simp add: WebRtc_MeanEstimatorFix_def shr32_def drop_bit_eq_div int32_small)

lemma example_smoothed_init:
  "process_smoothed example_initial 0xFFFF 0 =
     example_initial\<lparr>binary_far_history := [0xFFFF, 0], far_bit_counts := [16, 0],
       bit_counts := [16, 0], mean_bit_counts := [10238, 10240]\<rparr>"
  by (simp add: process_smoothed_def process_far_def process_near_def process_bit_counts_def
      process_means_def BitCountComparison_def mean_update_def memmove_up_def upt_2 Let_def
      example_initial_def BitCount_0 example_BitCount shl32_def int32_small push_bit_eq_mult
      example_MeanEstimatorFix_init example_shifts)

lemma example_process_init:
  "WebRtc_ProcessBinarySpectrum example_initial 0xFFFF 0 =
     (example_initial\<lparr>binary_far_history := [0xFFFF, 0], far_bit_counts := [16, 0],
        bit_counts := [16, 0], mean_bit_counts := [10238, 10240],
        last_delay_probability := 16385\<rparr>, - 2)"
  unfolding WebRtc_ProcessBinarySpectrum_def example_smoothed_init
  by (simp add: process_scan_def scan_step_def process_minimum_probability_def
      process_decision_def upt_2 Let_def example_initial_def kProbabilityLowerLimit_def
      kProbabilityMinSpread_def kProbabilityOffset_def int32_small)






section \<open>The claims\<close>

text \<open>
  The claims about a single call are stated on the valid states. Every state the
  constructor returns is valid after the initialiser (\<open>valid_init\<close>), and a call on a
  valid state returns a valid state (\<open>valid_process\<close>, \<open>valid_frames\<close>).
\<close>

text \<open>
  Claim C1. For a state returned by the constructor and reset by the initialiser: right
  after the reset the accessor returns \<open>-2\<close>; after any sequence of frames, every delay
  returned by the frame update, and the value of the accessor, is \<open>-2\<close> or lies in
  \<open>[0, history_size)\<close>. In every further call the scan finds a candidate whose value is
  below \<open>16384\<close>: \<open>candidate_delay\<close> is an index, never \<open>-1\<close>.
\<close>

theorem delay_never_minus_one:
  assumes "WebRtc_CreateBinaryDelayEstimator heap max_delay lookahead = Some s0"
  shows "WebRtc_binary_last_delay (WebRtc_InitBinaryDelayEstimator s0) = - 2 \<and>
         (\<forall>d \<in> set (snd (process_frames (WebRtc_InitBinaryDelayEstimator s0) frames)).
            d = - 2 \<or> (0 \<le> d \<and> d < history_size s0)) \<and>
         (let s = fst (process_frames (WebRtc_InitBinaryDelayEstimator s0) frames)
          in (WebRtc_binary_last_delay s = - 2 \<or>
              (0 \<le> WebRtc_binary_last_delay s \<and> WebRtc_binary_last_delay s < history_size s0)) \<and>
             (\<forall>far near c b w. process_candidates s far near = (c, b, w) \<longrightarrow>
                b < 16384 \<and> c \<noteq> - 1 \<and> 0 \<le> c \<and> c < history_size s0))"
proof -
  let ?i = "WebRtc_InitBinaryDelayEstimator s0"
  let ?s = "fst (process_frames ?i frames)"
  have vi: "valid_state ?i"
    using assms by (rule valid_init)
  then have v: "valid_state ?s" and h: "history_size ?s = history_size s0"
    by (simp_all add: valid_frames init_history_size)
  have 1: "WebRtc_binary_last_delay ?i = - 2"
    by (simp add: WebRtc_binary_last_delay_def WebRtc_InitBinaryDelayEstimator_def)
  have 2: "\<forall>d \<in> set (snd (process_frames ?i frames)). d = - 2 \<or> (0 \<le> d \<and> d < history_size s0)"
    using frames_delays [OF vi, of frames] by (simp add: init_history_size)
  have 3: "WebRtc_binary_last_delay ?s = - 2 \<or>
      (0 \<le> WebRtc_binary_last_delay ?s \<and> WebRtc_binary_last_delay ?s < history_size s0)"
    using v h by (simp add: valid_state_def WebRtc_binary_last_delay_def)
  have 4: "b < 16384 \<and> c \<noteq> - 1 \<and> 0 \<le> c \<and> c < history_size s0"
    if "process_candidates ?s far near = (c, b, w)" for far near c b w
    using candidates_range(3,8,9) [OF v that] h by auto
  show ?thesis
    unfolding Let_def using 1 2 3 4 by blast
qed

theorem delay_never_minus_one_witness:
  "WebRtc_CreateBinaryDelayEstimator zero_heap 1 1 = Some example_created \<and>
   WebRtc_binary_last_delay (WebRtc_InitBinaryDelayEstimator example_created) = - 2 \<and>
   snd (process_frames (WebRtc_InitBinaryDelayEstimator example_created) [(0xFFFF, 0)]) = [- 2] \<and>
   (WebRtc_binary_last_delay
      (fst (process_frames (WebRtc_InitBinaryDelayEstimator example_created)
              [(0xFFFF, 0), (0, 0xFFFF)])) = - 2 \<or>
    (0 \<le> WebRtc_binary_last_delay
      (fst (process_frames (WebRtc_InitBinaryDelayEstimator example_created)
              [(0xFFFF, 0), (0, 0xFFFF)])) \<and>
     WebRtc_binary_last_delay
      (fst (process_frames (WebRtc_InitBinaryDelayEstimator example_created)
              [(0xFFFF, 0), (0, 0xFFFF)])) < 2))"
proof -
  have h: "history_size example_created = 2"
    by (simp add: example_created_def)
  have e: "snd (process_frames (WebRtc_InitBinaryDelayEstimator example_created)
      [(0xFFFF, 0)]) = [- 2]"
    by (simp add: example_init example_process_init)
  show ?thesis
    using example_create e
      delay_never_minus_one [OF example_create, of "[(0xFFFF, 0), (0, 0xFFFF)]",
        unfolded Let_def h]
    by blast
qed




text \<open>
  Claim C3. After any sequence of frames on a constructed and initialised state: with
  \<open>near_history_size = L + 1 > 1\<close>, a call puts the near word at index 0 of the near
  history, in front of the previous entries without their last, and compares the entry
  at index \<open>near_history_size - 1\<close> of the shifted history, which is the near word
  passed \<open>L\<close> calls earlier, or zero when fewer than \<open>L\<close> calls came before. With
  \<open>near_history_size = 1\<close> it compares the near word of the call itself. The compared
  word is the one the bit counts of the call are taken against, and \<open>near_history_size\<close>
  is \<open>lookahead + 1\<close>.
\<close>

theorem lookahead_compared:
  assumes "WebRtc_CreateBinaryDelayEstimator heap max_delay lookahead = Some s0"
  shows "let s = fst (process_frames (WebRtc_InitBinaryDelayEstimator s0) frames);
             s' = fst (WebRtc_ProcessBinarySpectrum s far near);
             L = nat (near_history_size s0 - 1)
         in (near_history_size s0 > 1 \<longrightarrow>
               binary_near_history s' = near # butlast (binary_near_history s) \<and>
               process_compared s far near = binary_near_history s' ! L \<and>
               process_compared s far near =
                 (if L \<le> length frames then snd (frames ! (length frames - L)) else 0)) \<and>
            (near_history_size s0 = 1 \<longrightarrow> process_compared s far near = near) \<and>
            bit_counts s' =
              map (\<lambda>w. BitCount (process_compared s far near XOR w)) (binary_far_history s') \<and>
            (lookahead < 2147483647 \<longrightarrow> near_history_size s0 = lookahead + 1)"
proof -
  let ?i = "WebRtc_InitBinaryDelayEstimator s0"
  let ?s = "fst (process_frames ?i frames)"
  let ?s' = "fst (WebRtc_ProcessBinarySpectrum ?s far near)"
  let ?L = "nat (near_history_size s0 - 1)"
  let ?l = "rev (map snd frames) @ replicate (nat (near_history_size s0)) 0"
  have vi: "valid_state ?i"
    using assms by (rule valid_init)
  then have v: "valid_state ?s" and h: "near_history_size ?s = near_history_size s0"
    by (simp_all add: valid_frames init_history_size)
  note c = created_shape [OF assms]
  have z: "binary_near_history ?i = replicate (nat (near_history_size ?i)) 0"
    using c by (simp add: init_fields)
  have bc: "bit_counts ?s' =
      map (\<lambda>w. BitCount (process_compared ?s far near XOR w)) (binary_far_history ?s')"
    by (simp add: process_arrays [OF v] process_smoothed_fields(9) [OF v])
  have one: "process_compared ?s far near = near" if "near_history_size s0 = 1"
    using that by (simp add: process_compared_eq [OF v] h)
  have more: "binary_near_history ?s' = near # butlast (binary_near_history ?s) \<and>
      process_compared ?s far near = binary_near_history ?s' ! ?L \<and>
      process_compared ?s far near =
        (if ?L \<le> length frames then snd (frames ! (length frames - ?L)) else 0)"
    if L: "near_history_size s0 > 1"
  proof -
    have n: "binary_near_history ?s = take (nat (near_history_size s0)) ?l"
      using near_history_frames [OF vi _ z, of frames] L by (simp add: init_history_size)
    have 1: "binary_near_history ?s' = near # butlast (binary_near_history ?s)"
      using L by (simp add: process_arrays(5) [OF v] process_smoothed_fields(8) [OF v] h)
    have 2: "process_compared ?s far near = binary_near_history ?s' ! ?L"
      using L by (simp add: process_compared_eq [OF v] h 1)
    have S: "?L = Suc (?L - 1)" and N: "nat (near_history_size s0) - 1 = ?L"
      using L by simp_all
    have "butlast (binary_near_history ?s) = take ?L ?l"
      unfolding n N [symmetric] by (rule butlast_take) simp
    then have "(near # butlast (binary_near_history ?s)) ! Suc (?L - 1) = take ?L ?l ! (?L - 1)"
      by simp
    also have "\<dots> = ?l ! (?L - 1)"
      using L by (intro nth_take) simp
    finally have "(near # butlast (binary_near_history ?s)) ! ?L = ?l ! (?L - 1)"
      using S by simp
    also have "\<dots> = (if ?L \<le> length frames then snd (frames ! (length frames - ?L)) else 0)"
    proof (cases "?L \<le> length frames")
      case True
      then have "?L - 1 < length (rev (map snd frames))"
        using L by simp
      then have "?l ! (?L - 1) = rev (map snd frames) ! (?L - 1)"
        by (simp add: nth_append)
      also have "\<dots> = map snd frames ! (length (map snd frames) - Suc (?L - 1))"
        using True L by (intro rev_nth) simp
      also have "\<dots> = snd (frames ! (length frames - ?L))"
        using True L by simp
      finally show ?thesis
        using True by simp
    next
      case False
      then have "\<not> ?L - 1 < length (rev (map snd frames))"
        using L by simp
      then have "?l ! (?L - 1) = replicate (nat (near_history_size s0)) 0 ! (?L - 1 - length (rev (map snd frames)))"
        by (simp add: nth_append)
      also have "\<dots> = 0"
        using L by (intro nth_replicate) simp
      finally show ?thesis
        using False by simp
    qed
    finally show ?thesis
      using 1 2 by simp
  qed
  have la: "near_history_size s0 = lookahead + 1" if "lookahead < 2147483647"
    using created_args [OF assms] that by (simp add: int32_id in_int32_def)
  show ?thesis
    unfolding Let_def using bc one more la by blast
qed

theorem lookahead_compared_witness:
  "WebRtc_CreateBinaryDelayEstimator zero_heap 1 1 = Some example_created \<and>
   (1::int) < 2147483647 \<and> near_history_size example_created = 1 + 1 \<and>
   near_history_size example_created > 1 \<and>
   process_compared
     (fst (process_frames (WebRtc_InitBinaryDelayEstimator example_created) [(1, 7), (2, 9)]))
     3 11 = 9"
proof -
  let ?frames = "[(1, 7), (2, 9)] :: (uint32_t \<times> uint32_t) list"
  let ?s = "fst (process_frames (WebRtc_InitBinaryDelayEstimator example_created) ?frames)"
  let ?L = "nat (near_history_size example_created - 1)"
  have n: "near_history_size example_created > 1"
    by (simp add: example_created_def)
  have "process_compared ?s 3 11 =
      (if ?L \<le> length ?frames then snd (?frames ! (length ?frames - ?L)) else 0)"
    using n lookahead_compared [OF example_create, of ?frames 3 11, unfolded Let_def]
    by blast
  also have "\<dots> = 9"
    by (simp add: example_created_def)
  finally show ?thesis
    using example_create n
      lookahead_compared [OF example_create, of ?frames 3 11, unfolded Let_def]
    by simp
qed

text \<open>
  Claim C4. \<open>BitCount u\<close> is the population count of \<open>u\<close>, a number in \<open>[0, 32]\<close>.
  For \<open>n \<ge> 0\<close> and arrays of at least \<open>n\<close> elements, \<open>BitCountComparison\<close> stores
  the population count of \<open>vector XOR row[i]\<close> at every \<open>i < n\<close> and changes nothing else.
\<close>

theorem BitCount_exact:
  "BitCount u = int (popcount32 u) \<and> 0 \<le> BitCount u \<and> BitCount u \<le> 32 \<and>
   (0 \<le> n \<and> nat n \<le> length row \<and> nat n \<le> length counts \<longrightarrow>
      length (BitCountComparison v row n counts) = length counts \<and>
      (\<forall>i < nat n. BitCountComparison v row n counts ! i = int (popcount32 (v XOR row ! i))) \<and>
      (\<forall>i < length counts. nat n \<le> i \<longrightarrow> BitCountComparison v row n counts ! i = counts ! i))"
proof -
  have "nat n \<le> length counts \<Longrightarrow>
      length (BitCountComparison v row n counts) = length counts \<and>
      (\<forall>i < length counts. BitCountComparison v row n counts ! i =
         (if i < nat n then BitCount (v XOR row ! i) else counts ! i))"
    unfolding BitCountComparison_def
    by (rule fold_pointwise [where F = "\<lambda>i _. BitCount (v XOR row ! i)"])
  then show ?thesis
    using BitCount_range [of u] by (auto simp: BitCount_popcount)
qed

theorem BitCount_exact_witness:
  "(0::int) \<le> 1 \<and> nat 1 \<le> length [0xFFFF :: uint32_t, 0] \<and> nat 1 \<le> length [7 :: int, 7] \<and>
   BitCount 0xFFFF = 16 \<and> popcount32 0xFFFF = 16 \<and>
   length (BitCountComparison 0 [0xFFFF, 0] 1 [7, 7]) = 2 \<and>
   BitCountComparison 0 [0xFFFF, 0] 1 [7, 7] ! 0 = 16 \<and>
   BitCountComparison 0 [0xFFFF, 0] 1 [7, 7] ! 1 = 7"
  using BitCount_exact [of "0xFFFF" 1 "[0xFFFF, 0]" "[7, 7]" 0]
  by (simp add: example_BitCount)

text \<open>
  Claim C5. In a call on a valid state, at every index \<open>i < history_size\<close> with
  \<open>far_bit_counts[i] > 0\<close> (after the shift), \<open>mean_bit_counts[i]\<close> grows by the step of
  \<open>spec_adjust\<close>: the difference \<open>(bit_counts[i] << 9) - mean_bit_counts[i]\<close> shifted
  right by \<open>13 - ((3 * far_bit_counts[i]) >> 4)\<close>, a negative difference through its
  absolute value. This is the value \<open>WebRtc_MeanEstimatorFix\<close> computes with that shift,
  which lies between 7 and 13.
\<close>

theorem smoothing_update:
  assumes "valid_state handle" and "i < nat (history_size handle)"
  shows "let s' = fst (WebRtc_ProcessBinarySpectrum handle far near);
             shift = 13 - drop_bit 4 (3 * far_bit_counts s' ! i);
             new = push_bit 9 (bit_counts s' ! i);
             mean = mean_bit_counts handle ! i
         in far_bit_counts s' ! i > 0 \<longrightarrow>
              mean_bit_counts s' ! i = mean + spec_adjust new shift mean \<and>
              mean_bit_counts s' ! i = WebRtc_MeanEstimatorFix new shift mean \<and>
              7 \<le> shift \<and> shift \<le> 13"
  using assms by (rule smoothed_exact)

theorem smoothing_update_witness:
  "valid_state example_state \<and> 0 < nat (history_size example_state) \<and>
   far_bit_counts (fst (WebRtc_ProcessBinarySpectrum example_state 0xFFFF 0)) ! 0 > 0 \<and>
   mean_bit_counts (fst (WebRtc_ProcessBinarySpectrum example_state 0xFFFF 0)) ! 0 =
     16000 + spec_adjust 8192 10 16000 \<and>
   spec_adjust 8192 10 16000 = - 7"
proof -
  have i: "0 < nat (history_size example_state)"
    by (simp add: example_state_def)
  show ?thesis
    using example_valid i smoothing_update [OF example_valid i, of "0xFFFF" 0]
    unfolding Let_def example_process_far
    by (simp add: example_state_def spec_adjust_def drop_bit_eq_div push_bit_eq_mult)
qed

text \<open>
  Claim C6. \<open>minimum_probability\<close> is \<open>16384\<close> after the initialiser; after any
  sequence of frames it lies in \<open>[8704, 16384]\<close>, and a further call never increases it
  and never takes it below \<open>8704\<close>.
\<close>

theorem minimum_probability_bounds:
  assumes "WebRtc_CreateBinaryDelayEstimator heap max_delay lookahead = Some s0"
  shows "minimum_probability (WebRtc_InitBinaryDelayEstimator s0) = 16384 \<and>
         (let s = fst (process_frames (WebRtc_InitBinaryDelayEstimator s0) frames)
          in 8704 \<le> minimum_probability s \<and> minimum_probability s \<le> 16384 \<and>
             minimum_probability (fst (WebRtc_ProcessBinarySpectrum s far near))
               \<le> minimum_probability s \<and>
             8704 \<le> minimum_probability (fst (WebRtc_ProcessBinarySpectrum s far near)))"
proof -
  let ?i = "WebRtc_InitBinaryDelayEstimator s0"
  let ?s = "fst (process_frames ?i frames)"
  have vi: "valid_state ?i"
    using assms by (rule valid_init)
  then have v: "valid_state ?s"
    by (rule valid_frames)
  obtain c b w where cbw: "process_candidates ?s far near = (c, b, w)"
    by (cases "process_candidates ?s far near") auto
  have "minimum_probability (fst (WebRtc_ProcessBinarySpectrum ?s far near))
      \<le> minimum_probability ?s"
    unfolding process_result(3) [OF v cbw] by simp
  moreover have "8704 \<le> minimum_probability (fst (WebRtc_ProcessBinarySpectrum ?s far near))"
    using valid_process(1) [OF v, of far near] by (simp add: valid_state_def)
  moreover have "minimum_probability ?i = 16384"
    by (simp add: WebRtc_InitBinaryDelayEstimator_def shl32_def push_bit_eq_mult int32_small)
  ultimately show ?thesis
    using v by (simp add: Let_def valid_state_def)
qed

theorem minimum_probability_bounds_witness:
  "WebRtc_CreateBinaryDelayEstimator zero_heap 1 1 = Some example_created \<and>
   minimum_probability (WebRtc_InitBinaryDelayEstimator example_created) = 16384 \<and>
   8704 \<le> minimum_probability
     (fst (process_frames (WebRtc_InitBinaryDelayEstimator example_created) [(0xFFFF, 0)])) \<and>
   minimum_probability
     (fst (WebRtc_ProcessBinarySpectrum
        (fst (process_frames (WebRtc_InitBinaryDelayEstimator example_created) [(0xFFFF, 0)]))
        0 0xFFFF))
   \<le> minimum_probability
     (fst (process_frames (WebRtc_InitBinaryDelayEstimator example_created) [(0xFFFF, 0)]))"
  using example_create
    minimum_probability_bounds [OF example_create, of "[(0xFFFF, 0)]" 0 "0xFFFF"]
  unfolding Let_def by simp

text \<open>
  Claim C7. In a call on a valid state, at every index \<open>i < history_size\<close> where
  \<open>far_bit_counts[i]\<close> is zero after the shift, \<open>mean_bit_counts[i]\<close> is what it was before
  the call. The count of a slot is zero exactly when the far-end word of the slot is
  zero.
\<close>

theorem zero_far_bit_count_skips:
  assumes "valid_state handle" and "i < nat (history_size handle)"
  shows "let s' = fst (WebRtc_ProcessBinarySpectrum handle far near)
         in (far_bit_counts s' ! i = 0 \<longrightarrow>
               mean_bit_counts s' ! i = mean_bit_counts handle ! i) \<and>
            (far_bit_counts s' ! i = 0 \<longleftrightarrow> binary_far_history s' ! i = 0)"
proof -
  let ?s = "fst (WebRtc_ProcessBinarySpectrum handle far near)"
  note n = smoothed_nth [OF assms, of far near]
  have "mean_bit_counts ?s ! i = mean_bit_counts handle ! i" if "far_bit_counts ?s ! i = 0"
    unfolding n(1) using that by (simp add: smoothed_value_def)
  moreover have "far_bit_counts ?s ! i = 0 \<longleftrightarrow> binary_far_history ?s ! i = 0"
    unfolding n(2) by (simp add: BitCount_popcount popcount32_zero)
  ultimately show ?thesis
    unfolding Let_def by blast
qed

theorem zero_far_bit_count_skips_witness:
  "valid_state example_state \<and> 1 < nat (history_size example_state) \<and>
   far_bit_counts (fst (WebRtc_ProcessBinarySpectrum example_state 0xFFFF 0)) ! 1 = 0 \<and>
   mean_bit_counts (fst (WebRtc_ProcessBinarySpectrum example_state 0xFFFF 0)) ! 1 =
     mean_bit_counts example_state ! 1"
proof -
  have i: "1 < nat (history_size example_state)"
    by (simp add: example_state_def)
  show ?thesis
    using example_valid i zero_far_bit_count_skips [OF example_valid i, of "0xFFFF" 0]
    unfolding Let_def example_process_far
    by (simp add: example_state_def)
qed

text \<open>
  Claim C8. In a call on a valid state, with \<open>mean\<close> the smoothed means the scan reads
  (they are the means of the state the call returns): \<open>value_best_candidate\<close> is the
  minimum of \<open>mean\<close> if that is below \<open>16384\<close>, else \<open>16384\<close>; \<open>candidate_delay\<close> is the
  smallest index that attains the minimum; \<open>value_worst_candidate\<close> is the maximum of
  \<open>mean\<close> if positive, else \<open>0\<close>. Both comparisons of the scan are strict.
\<close>

theorem candidate_scan:
  assumes "valid_state handle"
    and "process_candidates handle far near =
           (candidate_delay, value_best_candidate, value_worst_candidate)"
  shows "let mean = mean_bit_counts (process_smoothed handle far near)
         in value_best_candidate =
              (if Min (set mean) < 16384 then Min (set mean) else 16384) \<and>
            0 \<le> candidate_delay \<and> nat candidate_delay < nat (history_size handle) \<and>
            mean ! nat candidate_delay = Min (set mean) \<and>
            (\<forall>j < nat candidate_delay. mean ! j \<noteq> Min (set mean)) \<and>
            value_worst_candidate = (if Max (set mean) > 0 then Max (set mean) else 0) \<and>
            mean_bit_counts (fst (WebRtc_ProcessBinarySpectrum handle far near)) = mean \<and>
            (\<forall>i c b w. scan_step mean i (c, b, w) =
               (if mean ! i < b then int i else c, if mean ! i < b then mean ! i else b,
                if mean ! i > w then mean ! i else w))"
proof -
  note r = candidates_range [OF assms]
  have "1 < history_size handle"
    using assms(1) by (simp add: valid_state_def)
  with r(8,9) have "nat candidate_delay < nat (history_size handle)"
    by simp
  moreover have "\<forall>j < nat candidate_delay.
      mean_bit_counts (process_smoothed handle far near) ! j \<noteq> value_best_candidate"
    using r(11) by auto
  moreover have "scan_step m i (c, b, w) =
      (if m ! i < b then int i else c, if m ! i < b then m ! i else b,
       if m ! i > w then m ! i else w)" for m i c b w
    by (simp add: scan_step_def Let_def)
  ultimately show ?thesis
    unfolding Let_def using r process_arrays(1) [OF assms(1), of far near] by auto
qed

theorem candidate_scan_witness:
  "valid_state example_state \<and> process_candidates example_state 0 0 = (1, 100, 16000) \<and>
   mean_bit_counts (process_smoothed example_state 0 0) = [16000, 100] \<and>
   Min (set (mean_bit_counts (process_smoothed example_state 0 0))) = 100 \<and>
   Max (set (mean_bit_counts (process_smoothed example_state 0 0))) = 16000"
proof -
  let ?mean = "mean_bit_counts (process_smoothed example_state 0 0)"
  note t = candidate_scan [OF example_valid example_candidates, unfolded Let_def]
  have m: "?mean = [16000, 100]"
    unfolding example_smoothed by (simp add: example_state_def)
  from t have "?mean ! nat 1 = Min (set ?mean)"
    by blast
  then have 1: "Min (set ?mean) = 100"
    by (simp add: m)
  from t have "16000 = (if Max (set ?mean) > 0 then Max (set ?mean) else 0)"
    by blast
  then have 2: "Max (set ?mean) = 16000"
    by (simp split: if_splits)
  show ?thesis
    using example_valid example_candidates m 1 2 by simp
qed

text \<open>
  Claim C10. The initialiser sets every \<open>mean_bit_counts[i]\<close> to \<open>10240\<close>. After any
  sequence of frames on a constructed and initialised state, and after one more call,
  every entry lies in \<open>[0, 16384)\<close>. In that call the target \<open>bit_counts[i] << 9\<close> lies
  in \<open>[0, 16384]\<close>, the new entry lies between the old one and the target, the shift
  of an update is at least 7, and an entry below its target stays below it.
\<close>

theorem mean_bit_counts_bounds:
  assumes "WebRtc_CreateBinaryDelayEstimator heap max_delay lookahead = Some s0"
  shows "mean_bit_counts (WebRtc_InitBinaryDelayEstimator s0) =
           replicate (nat (history_size s0)) 10240 \<and>
         (let s = fst (process_frames (WebRtc_InitBinaryDelayEstimator s0) frames);
              s' = fst (WebRtc_ProcessBinarySpectrum s far near)
          in (\<forall>m \<in> set (mean_bit_counts s). 0 \<le> m \<and> m < 16384) \<and>
             (\<forall>m \<in> set (mean_bit_counts s'). 0 \<le> m \<and> m < 16384) \<and>
             (\<forall>i < nat (history_size s0).
                let new = push_bit 9 (bit_counts s' ! i);
                    old = mean_bit_counts s ! i
                in 0 \<le> new \<and> new \<le> 16384 \<and>
                   min old new \<le> mean_bit_counts s' ! i \<and>
                   mean_bit_counts s' ! i \<le> max old new \<and>
                   (far_bit_counts s' ! i > 0 \<longrightarrow>
                      7 \<le> 13 - drop_bit 4 (3 * far_bit_counts s' ! i) \<and>
                      (old < new \<longrightarrow> mean_bit_counts s' ! i < new))))"
proof -
  let ?i = "WebRtc_InitBinaryDelayEstimator s0"
  let ?s = "fst (process_frames ?i frames)"
  let ?s' = "fst (WebRtc_ProcessBinarySpectrum ?s far near)"
  have vi: "valid_state ?i"
    using assms by (rule valid_init)
  then have v: "valid_state ?s" and h: "history_size ?s = history_size s0"
    by (simp_all add: valid_frames init_history_size)
  have v': "valid_state ?s'"
    using v by (rule valid_process)
  have 1: "mean_bit_counts ?i = replicate (nat (history_size s0)) 10240"
    using created_shape [OF assms] by (simp add: init_fields)
  have 2: "\<forall>m \<in> set (mean_bit_counts ?s). 0 \<le> m \<and> m < 16384"
    and 3: "\<forall>m \<in> set (mean_bit_counts ?s'). 0 \<le> m \<and> m < 16384"
    using v v' by (simp_all add: valid_state_def)
  have 4: "let new = push_bit 9 (bit_counts ?s' ! i); old = mean_bit_counts ?s ! i
      in 0 \<le> new \<and> new \<le> 16384 \<and>
         min old new \<le> mean_bit_counts ?s' ! i \<and> mean_bit_counts ?s' ! i \<le> max old new \<and>
         (far_bit_counts ?s' ! i > 0 \<longrightarrow>
            7 \<le> 13 - drop_bit 4 (3 * far_bit_counts ?s' ! i) \<and>
            (old < new \<longrightarrow> mean_bit_counts ?s' ! i < new))"
    if i: "i < nat (history_size s0)" for i
  proof -
    let ?c = "far_bit_counts ?s' ! i" and ?b = "bit_counts ?s' ! i"
    let ?m = "mean_bit_counts ?s ! i"
    have i': "i < nat (history_size ?s)"
      using i h by simp
    note n = smoothed_nth [OF v i', of far near]
    note u = smoothed_exact [OF v i', of far near, unfolded Let_def]
    have b: "0 \<le> ?b" "?b \<le> 32"
      unfolding n(3) by (simp_all add: BitCount_range)
    then have new: "0 \<le> push_bit 9 ?b" "push_bit 9 ?b \<le> 16384"
      by (simp_all add: push_bit_eq_mult)
    show ?thesis
    proof (cases "?c > 0")
      case True
      with u have e: "mean_bit_counts ?s' ! i =
          ?m + spec_adjust (push_bit 9 ?b) (13 - drop_bit 4 (3 * ?c)) ?m"
        and s: "7 \<le> 13 - drop_bit 4 (3 * ?c)"
        by simp_all
      then have p: "0 < 13 - drop_bit 4 (3 * ?c)"
        by simp
      consider "push_bit 9 ?b < ?m" | "?m < push_bit 9 ?b" | "?m = push_bit 9 ?b"
        by linarith
      then show ?thesis
        using spec_adjust_between [OF p, where new = "push_bit 9 ?b" and m = ?m] new s True
        unfolding e Let_def by cases auto
    next
      case False
      then have "mean_bit_counts ?s' ! i = ?m"
        unfolding n(1) by (simp add: smoothed_value_def)
      with False new show ?thesis
        by (simp add: Let_def)
    qed
  qed
  show ?thesis
    unfolding Let_def using 1 2 3 4 [unfolded Let_def] by blast
qed

theorem mean_bit_counts_bounds_witness:
  "WebRtc_CreateBinaryDelayEstimator zero_heap 1 1 = Some example_created \<and>
   mean_bit_counts (WebRtc_InitBinaryDelayEstimator example_created) = [10240, 10240] \<and>
   mean_bit_counts
     (fst (WebRtc_ProcessBinarySpectrum (WebRtc_InitBinaryDelayEstimator example_created)
        0xFFFF 0)) = [10238, 10240] \<and>
   (0::int) \<le> 10238 \<and> (10238::int) < 16384"
proof -
  let ?i = "WebRtc_InitBinaryDelayEstimator example_created"
  have 1: "mean_bit_counts ?i = [10240, 10240]"
    unfolding example_init by (simp add: example_initial_def)
  have 2: "mean_bit_counts (fst (WebRtc_ProcessBinarySpectrum ?i 0xFFFF 0)) = [10238, 10240]"
    unfolding example_init example_process_init by simp
  have "\<forall>m \<in> set (mean_bit_counts
      (fst (WebRtc_ProcessBinarySpectrum (fst (process_frames ?i [])) 0xFFFF 0))).
      0 \<le> m \<and> m < 16384"
    using mean_bit_counts_bounds [OF example_create, of "[]" "0xFFFF" 0, unfolded Let_def]
    by blast
  then have "(0::int) \<le> 10238 \<and> (10238::int) < 16384"
    by (simp add: 2)
  then show ?thesis
    using example_create 1 2 by blast
qed

end
